theory Spec2Isabelle
  imports Main "HOL-Library.Sublist" "HOL-Library.Char_ord" "HOL-Library.List_Lexorder"
begin

section \<open>Strings and characters\<close>

text \<open>
  A Python \<^verbatim>\<open>str\<close> is a sequence of code points.  It is modelled as a \<^typ>\<open>string\<close>,
  a list of \<^typ>\<open>char\<close>; a \<^typ>\<open>char\<close> is read as the code point with the same number, so
  the model covers the strings over the code points 0 to 255 (ASCII and Latin-1).  Strings
  are ordered lexicographically by code point, as Python compares them.
\<close>

definition code_point :: "char \<Rightarrow> int" where
  "code_point c = of_char c"

text \<open>
  \<^verbatim>\<open>str.lower()\<close>.  On the code points 0 to 255 the lowercase mapping sends
  \<^verbatim>\<open>A\<close>..\<^verbatim>\<open>Z\<close> and the letters 0xC0..0xDE other than the multiplication sign
  0xD7 to the code point 32 above, and leaves every other code point unchanged.
\<close>

definition lower_char :: "char \<Rightarrow> char" where
  "lower_char c =
     (let n = code_point c in
      if (65 \<le> n \<and> n \<le> 90) \<or> (192 \<le> n \<and> n \<le> 222 \<and> n \<noteq> 215)
      then char_of (n + 32) else c)"

definition lower :: "string \<Rightarrow> string" where
  "lower s = map lower_char s"

text \<open>
  \<^verbatim>\<open>str.title()\<close>: a character that follows a cased character is lowercased, any other
  character is uppercased.  The program applies it to its keywords only, which consist of
  the letters \<^verbatim>\<open>a\<close>..\<^verbatim>\<open>z\<close> and spaces; uppercasing and the test for a cased
  character are given for the ASCII letters.
\<close>

definition is_cased :: "char \<Rightarrow> bool" where
  "is_cased c = (let n = code_point c in (65 \<le> n \<and> n \<le> 90) \<or> (97 \<le> n \<and> n \<le> 122))"

definition upper_char :: "char \<Rightarrow> char" where
  "upper_char c =
     (case map_of (zip ''abcdefghijklmnopqrstuvwxyz'' ''ABCDEFGHIJKLMNOPQRSTUVWXYZ'') c of
        Some u \<Rightarrow> u
      | None \<Rightarrow> c)"

fun title_from :: "bool \<Rightarrow> string \<Rightarrow> string" where
  "title_from previous_is_cased [] = []"
| "title_from previous_is_cased (c # cs) =
     (if previous_is_cased then lower_char c else upper_char c) # title_from (is_cased c) cs"

definition str_title :: "string \<Rightarrow> string" where
  "str_title s = title_from False s"

text \<open>\<^verbatim>\<open>s.replace(old, new)\<close> for a one-character \<^verbatim>\<open>old\<close>.\<close>

definition replace_char :: "char \<Rightarrow> string \<Rightarrow> string \<Rightarrow> string" where
  "replace_char old new s = concat (map (\<lambda>c. if c = old then new else [c]) s)"

text \<open>\<^verbatim>\<open>sub in s\<close>: the substring test.\<close>

fun contains :: "string \<Rightarrow> string \<Rightarrow> bool" where
  "contains sub [] = (sub = [])"
| "contains sub (c # cs) = (prefix sub (c # cs) \<or> contains sub cs)"

section \<open>Regular expressions\<close>

text \<open>
  The three patterns of the program, each as a function that tries to match at one
  position: it is given the character before the position (if any) and the rest of the
  string from the position on.  \<^verbatim>\<open>\w\<close> of a \<^verbatim>\<open>str\<close> pattern accepts the alphanumeric
  code points and the underscore, \<^verbatim>\<open>\d\<close> the decimal digits; \<^verbatim>\<open>\b\<close> holds where exactly
  one of the two neighbouring characters is a word character, a missing neighbour counting
  as none.
\<close>

definition is_digit :: "char \<Rightarrow> bool" where
  "is_digit c = (let n = code_point c in 48 \<le> n \<and> n \<le> 57)"

definition is_word :: "char \<Rightarrow> bool" where
  "is_word c =
     (let n = code_point c in
      (48 \<le> n \<and> n \<le> 57) \<or> (65 \<le> n \<and> n \<le> 90) \<or> n = 95 \<or> (97 \<le> n \<and> n \<le> 122) \<or>
      n = 170 \<or> n = 178 \<or> n = 179 \<or> n = 181 \<or> n = 185 \<or> n = 186 \<or>
      (188 \<le> n \<and> n \<le> 190) \<or> (192 \<le> n \<and> n \<noteq> 215 \<and> n \<noteq> 247))"

fun is_word_opt :: "char option \<Rightarrow> bool" where
  "is_word_opt None = False"
| "is_word_opt (Some c) = is_word c"

fun head_opt :: "string \<Rightarrow> char option" where
  "head_opt [] = None"
| "head_opt (c # cs) = Some c"

definition at_boundary :: "char option \<Rightarrow> string \<Rightarrow> bool" where
  "at_boundary prev rest = (is_word_opt prev \<noteq> is_word_opt (head_opt rest))"

text \<open>
  A match object holds the matched groups, group 0 being the whole match.
  \<^verbatim>\<open>m.group(n)\<close> raises \<^verbatim>\<open>IndexError\<close> when the pattern has no group \<^verbatim>\<open>n\<close>.
\<close>

datatype py_error = IndexError

record re_match =
  groups :: "string list"

definition group :: "re_match \<Rightarrow> nat \<Rightarrow> py_error + string" where
  "group m n = (if n < length (groups m) then Inr (groups m ! n) else Inl IndexError)"

type_synonym matcher = "char option \<Rightarrow> string \<Rightarrow> re_match option"

text \<open>\<^verbatim>\<open>re.search\<close>: the match at the leftmost position where the pattern matches.\<close>

fun search_from :: "matcher \<Rightarrow> char option \<Rightarrow> string \<Rightarrow> re_match option" where
  "search_from m prev [] = m prev []"
| "search_from m prev (c # cs) =
     (case m prev (c # cs) of
        Some r \<Rightarrow> Some r
      | None \<Rightarrow> search_from m (Some c) cs)"

definition re_search :: "matcher \<Rightarrow> string \<Rightarrow> re_match option" where
  "re_search m s = search_from m None s"

text \<open>The character before the position that follows a literal.\<close>

definition last_opt :: "char option \<Rightarrow> string \<Rightarrow> char option" where
  "last_opt prev lit = (if lit = [] then prev else Some (last lit))"

text \<open>\<^verbatim>\<open>rf'\b{abbr}\b'\<close>, for an abbreviation of letters.\<close>

definition match_abbr :: "string \<Rightarrow> matcher" where
  "match_abbr abbr prev s =
     (if at_boundary prev s \<and> prefix abbr s \<and>
         at_boundary (last_opt prev abbr) (drop (length abbr) s)
      then Some \<lparr>groups = [abbr]\<rparr> else None)"

text \<open>\<^verbatim>\<open>r'\b(20\d{2})\b'\<close>.\<close>

fun match_year :: matcher where
  "match_year prev (a # b # c # d # rest) =
     (if at_boundary prev (a # b # c # d # rest) \<and> a = CHR ''2'' \<and> b = CHR ''0'' \<and>
         is_digit c \<and> is_digit d \<and> at_boundary (Some d) rest
      then Some \<lparr>groups = [[a, b, c, d], [a, b, c, d]]\<rparr> else None)"
| "match_year prev s = None"

text \<open>\<^verbatim>\<open>r'Day (\d+)'\<close>; the group takes as many digits as follow.\<close>

definition match_day :: matcher where
  "match_day prev s =
     (let digits = takeWhile is_digit (drop 4 s) in
      if prefix ''Day '' s \<and> digits \<noteq> []
      then Some \<lparr>groups = [''Day '' @ digits, digits]\<rparr> else None)"

section \<open>The fixed tables\<close>

definition keywords_list :: "string list" where
  "keywords_list =
    [''florida'', ''orlando'', ''disney'', ''disneyland'', ''universal'', ''california'',
     ''las vegas'', ''new york'', ''hollywood'', ''los angeles'', ''miami'', ''tokyo'',
     ''epcot'', ''magic kingdom'', ''hollywood studios'', ''animal kingdom'',
     ''kissimmee'', ''st cloud'', ''san diego'', ''japan'', ''paris'', ''london'',
     ''abandoned'', ''hotel'', ''motel'', ''restaurant'', ''theme park'', ''amusement park'',
     ''mall'', ''shopping center'', ''museum'', ''attraction'', ''resort'', ''casino'',
     ''park'', ''beach'', ''airport'', ''train station'', ''ghost town'',
     ''exploring'', ''vlog'', ''daily vlog'', ''tour'', ''review'', ''unboxing'',
     ''shopping'', ''eating'', ''dining'', ''traveling'', ''hiking'', ''walking'',
     ''ride'', ''roller coaster'', ''adventure'', ''urban exploration'',
     ''star wars'', ''marvel'', ''harry potter'', ''transformers'', ''jurassic'',
     ''walmart'', ''target'', ''mcdonalds'', ''taco bell'', ''arbys'', ''wendys'',
     ''pizza hut'', ''burger king'', ''kfc'', ''subway'',
     ''christmas'', ''halloween'', ''thanksgiving'', ''new year'', ''birthday'',
     ''fourth of july'', ''easter'', ''valentine'',
     ''haunted'', ''scary'', ''creepy'', ''mysterious'', ''historic'', ''vintage'',
     ''retro'', ''nostalgic'', ''behind the scenes'', ''construction'', ''demolition'',
     ''closed'', ''opening day'', ''grand opening'', ''last day'', ''final'',
     ''road trip'', ''van life'', ''driving'', ''flight'', ''cruise'', ''train'',
     ''food'', ''buffet'', ''breakfast'', ''lunch'', ''dinner'', ''snack'', ''dessert'']"

definition stoplist :: "string list" where
  "stoplist = [''A'', ''An'', ''The'', ''In'', ''On'', ''At'', ''To'', ''From'']"

definition states :: "(string \<times> string) list" where
  "states =
    [(''FL'', ''Florida''), (''CA'', ''California''), (''NV'', ''Nevada''), (''NY'', ''NewYork''),
     (''TX'', ''Texas''), (''AZ'', ''Arizona''), (''GA'', ''Georgia''), (''NC'', ''NorthCarolina'')]"

section \<open>Tag extraction\<close>

text \<open>\<^verbatim>\<open>f"{title} {description}".lower()\<close>\<close>

definition combined_text :: "string \<Rightarrow> string \<Rightarrow> string" where
  "combined_text title description = lower (title @ '' '' @ description)"

text \<open>\<^verbatim>\<open>keyword.title().replace(' ', '')\<close>\<close>

definition normalize_tag :: "string \<Rightarrow> string" where
  "normalize_tag keyword = replace_char (CHR '' '') [] (str_title keyword)"

text \<open>
  The loop over the keywords.  \<^verbatim>\<open>keywords\<close> is a Python set, which is iterated in an
  order the program does not control; the loop takes the order as the list it runs over.
\<close>

fun add_keyword_tags :: "string list \<Rightarrow> string \<Rightarrow> string set \<Rightarrow> string set" where
  "add_keyword_tags [] text tags = tags"
| "add_keyword_tags (keyword # rest) text tags =
     add_keyword_tags rest text
       (if contains keyword text then
          (let tag = normalize_tag keyword in
           if tag \<notin> set stoplist then insert tag tags else tags)
        else tags)"

text \<open>The loop over \<^verbatim>\<open>states.items()\<close>.\<close>

fun add_state_tags :: "(string \<times> string) list \<Rightarrow> string \<Rightarrow> string \<Rightarrow> string set \<Rightarrow> string set" where
  "add_state_tags [] title text tags = tags"
| "add_state_tags ((abbr, full) # rest) title text tags =
     add_state_tags rest title text
       (if re_search (match_abbr abbr) title \<noteq> None \<or> contains (lower abbr) text
        then insert full tags else tags)"

text \<open>\<^verbatim>\<open>any(word in text for word in words)\<close>\<close>

definition any_in :: "string list \<Rightarrow> string \<Rightarrow> bool" where
  "any_in words text = list_ex (\<lambda>word. contains word text) words"

text \<open>The six checks on the lowercase text that follow the loops.\<close>

definition add_pattern_tags :: "string \<Rightarrow> string set \<Rightarrow> string set" where
  "add_pattern_tags text tags =
    (let tags = (if contains ''daily woo'' text \<or> contains ''the daily woo'' text
                 then insert ''DailyWoo'' (insert ''DailyVlog'' tags) else tags);
         tags = (if any_in [''abandoned'', ''exploring'', ''exploration'', ''sneaking'', ''closed''] text
                 then insert ''UrbanExploration'' tags else tags);
         tags = (if any_in [''disney'', ''universal'', ''theme park'', ''amusement'', ''epcot'',
                            ''magic kingdom''] text
                 then insert ''ThemePark'' tags else tags);
         tags = (if any_in [''food'', ''eating'', ''restaurant'', ''buffet'', ''lunch'', ''dinner'',
                            ''breakfast'', ''menu''] text
                 then insert ''Food'' tags else tags);
         tags = (if any_in [''travel'', ''trip'', ''vacation'', ''journey'', ''adventure''] text
                 then insert ''Travel'' tags else tags);
         tags = (if any_in [''hotel'', ''motel'', ''resort'', ''room tour'', ''staying at''] text
                 then insert ''Accommodation'' tags else tags)
     in tags)"

text \<open>The year of the title: \<^verbatim>\<open>tags.add(f'Year{year_match.group(1)}')\<close>.\<close>

definition add_year_tag :: "string \<Rightarrow> string set \<Rightarrow> py_error + string set" where
  "add_year_tag title tags =
    (case re_search match_year title of
       None \<Rightarrow> Inr tags
     | Some year_match \<Rightarrow>
         (case group year_match 1 of
            Inl e \<Rightarrow> Inl e
          | Inr digits \<Rightarrow> Inr (insert (''Year'' @ digits) tags)))"

definition add_day_tag :: "string \<Rightarrow> string set \<Rightarrow> string set" where
  "add_day_tag title tags =
    (case re_search match_day title of
       None \<Rightarrow> tags
     | Some day_match \<Rightarrow> insert ''DailyVlog'' tags)"

text \<open>
  The body of \<^verbatim>\<open>extract_tags_from_text\<close> up to its last line: the set \<^verbatim>\<open>tags\<close>, for
  the keywords iterated in the order \<open>ks\<close>.
\<close>

definition collect_tags :: "string list \<Rightarrow> string \<Rightarrow> string \<Rightarrow> py_error + string set" where
  "collect_tags ks title description =
    (let tags = {};
         text = combined_text title description;
         tags = add_keyword_tags ks text tags;
         tags = add_state_tags states title text tags;
         tags = add_pattern_tags text tags
     in case add_year_tag title tags of
          Inl e \<Rightarrow> Inl e
        | Inr tags \<Rightarrow> Inr (add_day_tag title tags))"

text \<open>
  \<^verbatim>\<open>sorted(list(tags))\<close>: \<^verbatim>\<open>list(tags)\<close> lists the members of the set once each, in some
  order, and \<^verbatim>\<open>sorted\<close> sorts that list.
\<close>

definition extract_tags_iter :: "string list \<Rightarrow> string \<Rightarrow> string \<Rightarrow> py_error + string list" where
  "extract_tags_iter ks title description =
    (case collect_tags ks title description of
       Inl e \<Rightarrow> Inl e
     | Inr tags \<Rightarrow> Inr (sorted_list_of_set tags))"

definition extract_tags_from_text :: "string \<Rightarrow> string \<Rightarrow> py_error + string list" where
  "extract_tags_from_text title description = extract_tags_iter keywords_list title description"

section \<open>Occurrences of the patterns, stated on the string\<close>

text \<open>
  What it means for a pattern to occur in a title, without reference to a search: the title
  splits into what precedes the occurrence, the occurrence and what follows it.  An
  occurrence is delimited as a word when the character before it and the character after
  it, where there is one, are not word characters.
\<close>

definition word_delimited :: "string \<Rightarrow> string \<Rightarrow> bool" where
  "word_delimited pre post =
     ((pre = [] \<or> \<not> is_word (last pre)) \<and> (post = [] \<or> \<not> is_word (hd post)))"

definition abbr_occurs :: "string \<Rightarrow> string \<Rightarrow> bool" where
  "abbr_occurs abbr title =
     (\<exists>pre post. title = pre @ abbr @ post \<and> word_delimited pre post)"

text \<open>A year token is \<^verbatim>\<open>20\<close> followed by two digits.\<close>

fun year_token :: "string \<Rightarrow> bool" where
  "year_token [a, b, c, d] = (a = CHR ''2'' \<and> b = CHR ''0'' \<and> is_digit c \<and> is_digit d)"
| "year_token tok = False"

definition year_occurs :: "string \<Rightarrow> string \<Rightarrow> string \<Rightarrow> string \<Rightarrow> bool" where
  "year_occurs title pre tok post =
     (title = pre @ tok @ post \<and> year_token tok \<and> word_delimited pre post)"

text \<open>The first occurrence of a year token is the one that nothing precedes.\<close>

definition first_year :: "string \<Rightarrow> string \<Rightarrow> string \<Rightarrow> string \<Rightarrow> bool" where
  "first_year title pre tok post =
     (year_occurs title pre tok post \<and>
      (\<forall>pre' tok' post'. year_occurs title pre' tok' post' \<longrightarrow> length pre \<le> length pre'))"

text \<open>\<^verbatim>\<open>Day\<close>, a space and at least one digit.\<close>

definition day_occurs :: "string \<Rightarrow> bool" where
  "day_occurs title = (\<exists>pre c post. title = pre @ ''Day '' @ c # post \<and> is_digit c)"

text \<open>A tag of the form \<^verbatim>\<open>Year...\<close>.\<close>

definition is_year_tag :: "string \<Rightarrow> bool" where
  "is_year_tag tag = prefix ''Year'' tag"

section \<open>The tag of a keyword, in the words of the specification\<close>

text \<open>
  The specification derives the tag of a keyword by title-casing the keyword and removing
  its whitespace.  Said without the string methods of the program: the keyword is split at
  its spaces, each word gets an uppercase first letter and lowercase letters after it, and
  the words are joined with nothing between them.
\<close>

primrec split_at_spaces :: "string \<Rightarrow> string list" where
  "split_at_spaces [] = [[]]"
| "split_at_spaces (c # cs) =
     (if c = CHR '' '' then [] # split_at_spaces cs
      else (case split_at_spaces cs of
              w # ws \<Rightarrow> (c # w) # ws
            | [] \<Rightarrow> [[c]]))"

definition capitalize :: "string \<Rightarrow> string" where
  "capitalize w = (case w of [] \<Rightarrow> [] | c # cs \<Rightarrow> upper_char c # map lower_char cs)"

definition pascal_case :: "string \<Rightarrow> string" where
  "pascal_case keyword = concat (map capitalize (split_at_spaces keyword))"

section \<open>The tags by origin\<close>

text \<open>
  The ways in which a tag can enter the set, as predicates on the tag: through a keyword of
  the vocabulary, through a state abbreviation, through one of the six checks on the
  lowercase text, as the year of the title, and through the day number of the title.
\<close>

definition keyword_tag :: "string list \<Rightarrow> string \<Rightarrow> string \<Rightarrow> bool" where
  "keyword_tag ks text x =
     (\<exists>k \<in> set ks. contains k text \<and> normalize_tag k \<notin> set stoplist \<and> x = normalize_tag k)"

definition state_tag :: "string \<Rightarrow> string \<Rightarrow> string \<Rightarrow> bool" where
  "state_tag title text x =
     (\<exists>abbr. (abbr, x) \<in> set states \<and> (abbr_occurs abbr title \<or> contains (lower abbr) text))"

definition pattern_tag :: "string \<Rightarrow> string \<Rightarrow> bool" where
  "pattern_tag text x =
     ((contains ''daily woo'' text \<or> contains ''the daily woo'' text) \<and>
        (x = ''DailyWoo'' \<or> x = ''DailyVlog'') \<or>
      any_in [''abandoned'', ''exploring'', ''exploration'', ''sneaking'', ''closed''] text \<and>
        x = ''UrbanExploration'' \<or>
      any_in [''disney'', ''universal'', ''theme park'', ''amusement'', ''epcot'',
              ''magic kingdom''] text \<and>
        x = ''ThemePark'' \<or>
      any_in [''food'', ''eating'', ''restaurant'', ''buffet'', ''lunch'', ''dinner'',
              ''breakfast'', ''menu''] text \<and>
        x = ''Food'' \<or>
      any_in [''travel'', ''trip'', ''vacation'', ''journey'', ''adventure''] text \<and>
        x = ''Travel'' \<or>
      any_in [''hotel'', ''motel'', ''resort'', ''room tour'', ''staying at''] text \<and>
        x = ''Accommodation'')"

definition year_tag :: "string \<Rightarrow> string \<Rightarrow> bool" where
  "year_tag title x = (\<exists>pre tok post. first_year title pre tok post \<and> x = ''Year'' @ tok)"

definition emitted :: "string list \<Rightarrow> string \<Rightarrow> string \<Rightarrow> string \<Rightarrow> bool" where
  "emitted ks title description x =
     (keyword_tag ks (combined_text title description) x \<or>
      state_tag title (combined_text title description) x \<or>
      pattern_tag (combined_text title description) x \<or>
      year_tag title x \<or>
      (x = ''DailyVlog'' \<and> day_occurs title))"

section \<open>Substrings and the lowercase text\<close>

lemma contains_iff: "contains sub s \<longleftrightarrow> (\<exists>pre post. s = pre @ sub @ post)"
proof (induction s)
  case Nil
  then show ?case by auto
next
  case (Cons c cs)
  show ?case
  proof
    assume "contains sub (c # cs)"
    then consider "prefix sub (c # cs)" | "contains sub cs" by auto
    then show "\<exists>pre post. c # cs = pre @ sub @ post"
    proof cases
      case 1
      then obtain post where "c # cs = sub @ post" by (auto simp: prefix_def)
      then have "c # cs = [] @ sub @ post" by simp
      then show ?thesis by (rule_tac x = "[]" in exI) (rule exI)
    next
      case 2
      with Cons.IH obtain pre post where "cs = pre @ sub @ post" by auto
      then have "c # cs = (c # pre) @ sub @ post" by simp
      then show ?thesis by (rule_tac x = "c # pre" in exI) (rule exI)
    qed
  next
    assume "\<exists>pre post. c # cs = pre @ sub @ post"
    then obtain pre post where e: "c # cs = pre @ sub @ post" by auto
    show "contains sub (c # cs)"
    proof (cases pre)
      case Nil
      with e have "prefix sub (c # cs)" by (simp add: prefix_def)
      then show ?thesis by simp
    next
      case (Cons p ps)
      with e have "cs = ps @ sub @ post" by simp
      then have "contains sub cs" using Cons.IH by auto
      then show ?thesis by simp
    qed
  qed
qed

lemma contains_append: "contains sub s \<Longrightarrow> contains sub (s @ t)"
proof -
  assume "contains sub s"
  then obtain pre post where "s = pre @ sub @ post" using contains_iff by auto
  then have "s @ t = pre @ sub @ (post @ t)" by simp
  then show ?thesis unfolding contains_iff by (rule_tac x = pre in exI) (rule exI)
qed


lemma lower_append: "lower (a @ b) = lower a @ lower b"
  by (simp add: lower_def)

lemma combined_text_append:
  "combined_text title (description @ extra) = combined_text title description @ lower extra"
  by (simp add: combined_text_def lower_def)


section \<open>The leftmost match\<close>

lemma last_opt_Cons: "last_opt prev (c # xs) = last_opt (Some c) xs"
  by (simp add: last_opt_def)

lemma last_opt_Nil: "last_opt prev [] = prev"
  by (simp add: last_opt_def)

text \<open>
  A search fails exactly when the pattern matches at no position of the string, the end
  included.
\<close>

lemma search_from_None_iff:
  "search_from m prev s = None \<longleftrightarrow>
     (\<forall>pre post. s = pre @ post \<longrightarrow> m (last_opt prev pre) post = None)"
proof (induction s arbitrary: prev)
  case Nil
  show ?case by (simp add: last_opt_Nil)
next
  case (Cons c cs)
  let ?A = "\<forall>pre post. c # cs = pre @ post \<longrightarrow> m (last_opt prev pre) post = None"
  let ?B = "\<forall>pre post. cs = pre @ post \<longrightarrow> m (last_opt (Some c) pre) post = None"
  have here: "?A \<Longrightarrow> m prev (c # cs) = None"
  proof -
    assume a: ?A
    have "m (last_opt prev []) (c # cs) = None"
      using a[rule_format, of "[]" "c # cs"] by simp
    then show ?thesis by (simp only: last_opt_Nil)
  qed
  have later: "?A \<Longrightarrow> ?B"
  proof (intro allI impI)
    fix pre post assume a: ?A and "cs = pre @ post"
    then have "m (last_opt prev (c # pre)) post = None"
      using a[rule_format, of "c # pre" post] by simp
    then show "m (last_opt (Some c) pre) post = None" by (simp only: last_opt_Cons)
  qed
  have conv: "m prev (c # cs) = None \<Longrightarrow> ?B \<Longrightarrow> ?A"
  proof (intro allI impI)
    fix pre post
    assume h: "m prev (c # cs) = None" and b: ?B and e: "c # cs = pre @ post"
    show "m (last_opt prev pre) post = None"
    proof (cases pre)
      case Nil
      with e have "post = c # cs" by simp
      with h Nil show ?thesis by (simp only: last_opt_Nil)
    next
      case (Cons x xs)
      with e have "cs = xs @ post" and "x = c" by simp_all
      from b[rule_format, of xs post] this(1)
      have "m (last_opt (Some c) xs) post = None" by simp
      then show ?thesis using Cons \<open>x = c\<close> by (simp only: last_opt_Cons)
    qed
  qed
  show ?case
  proof (cases "m prev (c # cs)")
    case (Some r0)
    then have "search_from m prev (c # cs) \<noteq> None" by simp
    moreover have "\<not> ?A" using here Some by fastforce
    ultimately show ?thesis by (simp only:)
  next
    case None
    then have "search_from m prev (c # cs) = search_from m (Some c) cs" by simp
    moreover have "?A \<longleftrightarrow> ?B" using later conv[OF None] by (rule iffI)
    ultimately show ?thesis using Cons.IH[of "Some c"] by (simp only:)
  qed
qed

text \<open>
  A search that succeeds returns the match at a position before which the pattern matches
  nowhere.
\<close>

lemma search_from_Some:
  "search_from m prev s = Some r \<Longrightarrow>
     \<exists>pre post. s = pre @ post \<and> m (last_opt prev pre) post = Some r \<and>
        (\<forall>pre' post'. s = pre' @ post' \<and> length pre' < length pre
            \<longrightarrow> m (last_opt prev pre') post' = None)"
proof (induction s arbitrary: prev)
  case Nil
  then have "[] = [] @ ([]::string) \<and> m (last_opt prev []) [] = Some r \<and>
        (\<forall>pre' post'. [] = pre' @ post' \<and> length pre' < length ([]::string)
            \<longrightarrow> m (last_opt prev pre') post' = None)"
    by (simp add: last_opt_Nil)
  then show ?case by (rule_tac x = "[]" in exI) (rule exI)
next
  case (Cons c cs)
  show ?case
  proof (cases "m prev (c # cs)")
    case (Some r0)
    with Cons.prems have "r0 = r" by simp
    with Some have "c # cs = [] @ (c # cs) \<and> m (last_opt prev []) (c # cs) = Some r \<and>
        (\<forall>pre' post'. c # cs = pre' @ post' \<and> length pre' < length ([]::string)
            \<longrightarrow> m (last_opt prev pre') post' = None)"
      by (simp add: last_opt_Nil)
    then show ?thesis by (rule_tac x = "[]" in exI) (rule exI)
  next
    case None
    with Cons.prems have "search_from m (Some c) cs = Some r" by simp
    from Cons.IH[OF this] obtain ps post where cs: "cs = ps @ post"
      and mm: "m (last_opt (Some c) ps) post = Some r"
      and first: "\<forall>pre' post'. cs = pre' @ post' \<and> length pre' < length ps
            \<longrightarrow> m (last_opt (Some c) pre') post' = None" by auto
    have "\<forall>pre' post'. c # cs = pre' @ post' \<and> length pre' < length (c # ps)
            \<longrightarrow> m (last_opt prev pre') post' = None"
    proof (intro allI impI)
      fix pre' post' assume a: "c # cs = pre' @ post' \<and> length pre' < length (c # ps)"
      show "m (last_opt prev pre') post' = None"
      proof (cases pre')
        case Nil
        with a have "post' = c # cs" by simp
        with None Nil show ?thesis by (simp only: last_opt_Nil)
      next
        case (Cons x xs)
        with a have "cs = xs @ post' \<and> length xs < length ps" and "x = c" by simp_all
        from first[rule_format, OF this(1)] Cons \<open>x = c\<close>
        show ?thesis by (simp only: last_opt_Cons)
      qed
    qed
    with cs mm have "c # cs = (c # ps) @ post \<and> m (last_opt prev (c # ps)) post = Some r \<and>
        (\<forall>pre' post'. c # cs = pre' @ post' \<and> length pre' < length (c # ps)
            \<longrightarrow> m (last_opt prev pre') post' = None)"
      by (simp only: last_opt_Cons append_Cons simp_thms)
    then show ?thesis by (rule_tac x = "c # ps" in exI) (rule exI)
  qed
qed

section \<open>The patterns match where they occur\<close>

lemma is_digit_word: "is_digit c \<Longrightarrow> is_word c"
  by (simp add: is_digit_def is_word_def Let_def)

lemma not_word_before: "\<not> is_word_opt (last_opt None pre) \<longleftrightarrow> pre = [] \<or> \<not> is_word (last pre)"
  by (simp add: last_opt_def)

lemma not_word_after: "\<not> is_word_opt (head_opt post) \<longleftrightarrow> post = [] \<or> \<not> is_word (hd post)"
  by (cases post) simp_all

lemma head_opt_append: "a \<noteq> [] \<Longrightarrow> head_opt (a @ b) = Some (hd a)"
  by (cases a) simp_all

lemma match_abbr_iff:
  assumes "abbr \<noteq> []" and "is_word (hd abbr)" and "is_word (last abbr)"
  shows "match_abbr abbr (last_opt None pre) rest \<noteq> None \<longleftrightarrow>
           (\<exists>post. rest = abbr @ post \<and> word_delimited pre post)"
proof
  assume "match_abbr abbr (last_opt None pre) rest \<noteq> None"
  then have b1: "at_boundary (last_opt None pre) rest" and p: "prefix abbr rest"
    and b2: "at_boundary (last_opt (last_opt None pre) abbr) (drop (length abbr) rest)"
    by (simp_all add: match_abbr_def split: if_splits)
  from p obtain post where rest: "rest = abbr @ post" by (auto simp: prefix_def)
  from b1 assms have "\<not> is_word_opt (last_opt None pre)"
    by (simp add: at_boundary_def rest head_opt_append)
  moreover from b2 assms have "\<not> is_word_opt (head_opt post)"
    by (simp add: at_boundary_def rest last_opt_def)
  ultimately have "word_delimited pre post"
    by (simp add: word_delimited_def not_word_before not_word_after)
  with rest show "\<exists>post. rest = abbr @ post \<and> word_delimited pre post" by simp
next
  assume "\<exists>post. rest = abbr @ post \<and> word_delimited pre post"
  then obtain post where rest: "rest = abbr @ post" and w: "word_delimited pre post" by auto
  from w have "\<not> is_word_opt (last_opt None pre)" and "\<not> is_word_opt (head_opt post)"
    by (simp_all add: word_delimited_def not_word_before not_word_after)
  with assms show "match_abbr abbr (last_opt None pre) rest \<noteq> None"
    by (simp add: match_abbr_def at_boundary_def rest head_opt_append last_opt_def)
qed

lemma re_search_abbr:
  assumes "abbr \<noteq> []" and "is_word (hd abbr)" and "is_word (last abbr)"
  shows "re_search (match_abbr abbr) title \<noteq> None \<longleftrightarrow> abbr_occurs abbr title"
proof
  assume "re_search (match_abbr abbr) title \<noteq> None"
  then obtain pre rest where t: "title = pre @ rest"
    and m: "match_abbr abbr (last_opt None pre) rest \<noteq> None"
    by (auto simp: re_search_def search_from_None_iff)
  from m obtain post where "rest = abbr @ post" and "word_delimited pre post"
    using match_abbr_iff[OF assms] by auto
  with t have "title = pre @ abbr @ post \<and> word_delimited pre post" by simp
  then show "abbr_occurs abbr title" unfolding abbr_occurs_def
    by (rule_tac x = pre in exI) (rule exI)
next
  assume "abbr_occurs abbr title"
  then obtain pre post where t: "title = pre @ abbr @ post" and w: "word_delimited pre post"
    by (auto simp: abbr_occurs_def)
  from w have "match_abbr abbr (last_opt None pre) (abbr @ post) \<noteq> None"
    using match_abbr_iff[OF assms, of pre "abbr @ post"] by simp
  with t show "re_search (match_abbr abbr) title \<noteq> None"
    unfolding re_search_def search_from_None_iff by metis
qed

lemma states_abbr_word:
  "(abbr, full) \<in> set states \<Longrightarrow> abbr \<noteq> [] \<and> is_word (hd abbr) \<and> is_word (last abbr)"
  by (auto simp: states_def is_word_def code_point_def)

lemma year_token_iff:
  "year_token tok \<longleftrightarrow> (\<exists>c d. tok = [CHR ''2'', CHR ''0'', c, d] \<and> is_digit c \<and> is_digit d)"
  by (induction tok rule: year_token.induct) auto

lemma year_token_length: "year_token tok \<Longrightarrow> length tok = 4"
  by (auto simp: year_token_iff)

lemma match_year_Some_iff:
  "match_year (last_opt None pre) rest = Some m \<longleftrightarrow>
     (\<exists>tok post. rest = tok @ post \<and> year_token tok \<and> word_delimited pre post \<and>
        m = \<lparr>groups = [tok, tok]\<rparr>)"
proof
  assume a: "match_year (last_opt None pre) rest = Some m"
  then obtain a b c d post where rest: "rest = a # b # c # d # post"
    by (cases "(last_opt None pre, rest)" rule: match_year.cases) simp_all
  from a have b1: "at_boundary (last_opt None pre) rest" and "a = CHR ''2''" "b = CHR ''0''"
    and dg: "is_digit c" "is_digit d" and b2: "at_boundary (Some d) post"
    and m: "m = \<lparr>groups = [[a, b, c, d], [a, b, c, d]]\<rparr>"
    unfolding rest by (simp_all split: if_splits)
  have "is_word a" using \<open>a = CHR ''2''\<close> by (simp add: is_word_def code_point_def)
  with b1 have "\<not> is_word_opt (last_opt None pre)" by (simp add: at_boundary_def rest)
  moreover from b2 dg have "\<not> is_word_opt (head_opt post)"
    by (simp add: at_boundary_def is_digit_word)
  ultimately have "word_delimited pre post"
    by (simp add: word_delimited_def not_word_before not_word_after)
  moreover have "year_token [a, b, c, d]" using \<open>a = CHR ''2''\<close> \<open>b = CHR ''0''\<close> dg by simp
  moreover have "rest = [a, b, c, d] @ post" by (simp add: rest)
  ultimately have "rest = [a, b, c, d] @ post \<and> year_token [a, b, c, d] \<and>
      word_delimited pre post \<and> m = \<lparr>groups = [[a, b, c, d], [a, b, c, d]]\<rparr>"
    using m by simp
  then show "\<exists>tok post. rest = tok @ post \<and> year_token tok \<and> word_delimited pre post \<and>
        m = \<lparr>groups = [tok, tok]\<rparr>"
    by (rule_tac x = "[a, b, c, d]" in exI) (rule exI)
next
  assume "\<exists>tok post. rest = tok @ post \<and> year_token tok \<and> word_delimited pre post \<and>
        m = \<lparr>groups = [tok, tok]\<rparr>"
  then obtain tok post where rest: "rest = tok @ post" and y: "year_token tok"
    and w: "word_delimited pre post" and m: "m = \<lparr>groups = [tok, tok]\<rparr>" by auto
  from y obtain c d where tok: "tok = [CHR ''2'', CHR ''0'', c, d]" and dg: "is_digit c" "is_digit d"
    by (auto simp: year_token_iff)
  from w have "\<not> is_word_opt (last_opt None pre)" and "\<not> is_word_opt (head_opt post)"
    by (simp_all add: word_delimited_def not_word_before not_word_after)
  moreover have "is_word (CHR ''2'')" by (simp add: is_word_def code_point_def)
  ultimately show "match_year (last_opt None pre) rest = Some m"
    using dg by (simp add: rest tok m at_boundary_def is_digit_word)
qed

lemma re_search_year_None:
  "re_search match_year title = None \<Longrightarrow> \<not> year_occurs title pre tok post"
proof
  assume n: "re_search match_year title = None" and y: "year_occurs title pre tok post"
  from y have t: "title = pre @ (tok @ post)" and "year_token tok" and "word_delimited pre post"
    by (simp_all add: year_occurs_def)
  then have "match_year (last_opt None pre) (tok @ post) = Some \<lparr>groups = [tok, tok]\<rparr>"
    unfolding match_year_Some_iff by (rule_tac x = tok in exI, rule_tac x = post in exI) simp
  moreover from n have "\<forall>pre post. title = pre @ post \<longrightarrow> match_year (last_opt None pre) post = None"
    unfolding re_search_def search_from_None_iff .
  from this[rule_format, OF t] have "match_year (last_opt None pre) (tok @ post) = None" .
  ultimately show False by simp
qed

lemma re_search_year_Some:
  assumes "re_search match_year title = Some m"
  shows "\<exists>pre tok post. first_year title pre tok post \<and> m = \<lparr>groups = [tok, tok]\<rparr>"
proof -
  from assms obtain pre rest where t: "title = pre @ rest"
    and mm: "match_year (last_opt None pre) rest = Some m"
    and first: "\<forall>pre' post'. title = pre' @ post' \<and> length pre' < length pre
            \<longrightarrow> match_year (last_opt None pre') post' = None"
    unfolding re_search_def using search_from_Some[of match_year None title m] by auto
  from mm obtain tok post where rest: "rest = tok @ post" and y: "year_token tok"
    and w: "word_delimited pre post" and m: "m = \<lparr>groups = [tok, tok]\<rparr>"
    unfolding match_year_Some_iff by auto
  have occ: "year_occurs title pre tok post" using t rest y w by (simp add: year_occurs_def)
  have "length pre \<le> length pre'" if o: "year_occurs title pre' tok' post'" for pre' tok' post'
  proof (rule ccontr)
    assume "\<not> length pre \<le> length pre'"
    with o have "title = pre' @ (tok' @ post') \<and> length pre' < length pre"
      by (simp add: year_occurs_def)
    from first[rule_format, OF this]
    have "match_year (last_opt None pre') (tok' @ post') = None" .
    moreover from o have "match_year (last_opt None pre') (tok' @ post') = Some \<lparr>groups = [tok', tok']\<rparr>"
      unfolding match_year_Some_iff year_occurs_def
      by (rule_tac x = tok' in exI, rule_tac x = post' in exI) simp
    ultimately show False by simp
  qed
  with occ have "first_year title pre tok post" by (simp add: first_year_def)
  with m have "first_year title pre tok post \<and> m = \<lparr>groups = [tok, tok]\<rparr>" by simp
  then show ?thesis by (rule_tac x = pre in exI, rule_tac x = tok in exI) (rule exI)
qed

lemma first_year_unique:
  assumes "first_year title pre tok post" and "first_year title pre' tok' post'"
  shows "tok = tok'"
proof -
  from assms have o: "year_occurs title pre tok post" and o': "year_occurs title pre' tok' post'"
    by (simp_all add: first_year_def)
  from assms o o' have len: "length pre = length pre'"
    unfolding first_year_def by (meson le_antisym)
  from o o' have e: "pre @ tok @ post = pre' @ tok' @ post'" and l: "length tok = length tok'"
    by (auto simp: year_occurs_def year_token_length)
  from e len have "tok @ post = tok' @ post'" by simp
  with l show ?thesis by simp
qed

lemma first_year_exists:
  assumes "year_occurs title pre tok post"
  shows "\<exists>pre0 tok0 post0. first_year title pre0 tok0 post0"
proof (cases "re_search match_year title")
  case None
  with assms show ?thesis using re_search_year_None by simp
next
  case (Some m)
  from re_search_year_Some[OF this] show ?thesis by auto
qed

lemma add_year_tag_None: "re_search match_year title = None \<Longrightarrow> add_year_tag title tags = Inr tags"
  by (simp add: add_year_tag_def)

lemma add_year_tag_Some: "re_search match_year title = Some \<lparr>groups = [tok, tok]\<rparr> \<Longrightarrow>
    add_year_tag title tags = Inr (insert (''Year'' @ tok) tags)"
  by (simp add: add_year_tag_def group_def)

lemma year_tags_empty:
  assumes "re_search match_year title = None"
  shows "{x. \<exists>pre tok post. first_year title pre tok post \<and> x = ''Year'' @ tok} = {}"
proof -
  have "\<not> first_year title pre tok post" for pre tok post
    using re_search_year_None[OF assms, of pre tok post] by (simp add: first_year_def)
  then show ?thesis by simp
qed

lemma year_tags_single:
  assumes f: "first_year title pre tok post"
  shows  "{x. \<exists>pre2 tok2 post2. first_year title pre2 tok2 post2 \<and> x = ''Year'' @ tok2}
      = {''Year'' @ tok}"
  proof (rule set_eqI, rule iffI)
    fix x
    assume "x \<in> {x. \<exists>pre2 tok2 post2. first_year title pre2 tok2 post2 \<and> x = ''Year'' @ tok2}"
    then obtain pre2 tok2 post2 where f2: "first_year title pre2 tok2 post2"
      and x: "x = ''Year'' @ tok2" by auto
    from first_year_unique[OF f f2] x show "x \<in> {''Year'' @ tok}" by simp
  next
    fix x
    assume "x \<in> {''Year'' @ tok}"
    then have "first_year title pre tok post \<and> x = ''Year'' @ tok" using f by simp
    then have "\<exists>pre2 tok2 post2. first_year title pre2 tok2 post2 \<and> x = ''Year'' @ tok2"
      by (rule_tac x = pre in exI, rule_tac x = tok in exI) (rule exI)
    then show "x \<in> {x. \<exists>pre2 tok2 post2. first_year title pre2 tok2 post2 \<and> x = ''Year'' @ tok2}"
      by simp
  qed

lemma add_year_tag_eq:
  "add_year_tag title tags =
     Inr (tags \<union> {x. \<exists>pre tok post. first_year title pre tok post \<and> x = ''Year'' @ tok})"
proof (cases "re_search match_year title")
  case None
  from add_year_tag_None[OF None] year_tags_empty[OF None] show ?thesis by (simp only: Un_empty_right)
next
  case (Some m)
  from re_search_year_Some[OF this] obtain pre tok post
    where f: "first_year title pre tok post" and m: "m = \<lparr>groups = [tok, tok]\<rparr>" by auto
  from Some m have "re_search match_year title = Some \<lparr>groups = [tok, tok]\<rparr>" by simp
  from add_year_tag_Some[OF this] year_tags_single[OF f] show ?thesis
    by (simp only: Un_insert_right Un_empty_right)
qed

lemma match_day_iff:
  "match_day p rest \<noteq> None \<longleftrightarrow> (\<exists>c post. rest = ''Day '' @ c # post \<and> is_digit c)"
proof
  assume "match_day p rest \<noteq> None"
  then have pf: "prefix ''Day '' rest" and dg: "takeWhile is_digit (drop 4 rest) \<noteq> []"
    by (simp_all add: match_day_def Let_def split: if_splits)
  from pf obtain r where rest: "rest = ''Day '' @ r" by (auto simp: prefix_def)
  with dg have "takeWhile is_digit r \<noteq> []" by simp
  then obtain c post where "r = c # post" and "is_digit c"
    by (cases r) (auto split: if_splits)
  with rest have "rest = ''Day '' @ c # post \<and> is_digit c" by simp
  then show "\<exists>c post. rest = ''Day '' @ c # post \<and> is_digit c"
    by (rule_tac x = c in exI) (rule exI)
next
  assume "\<exists>c post. rest = ''Day '' @ c # post \<and> is_digit c"
  then obtain c post where "rest = ''Day '' @ c # post" and "is_digit c" by auto
  then show "match_day p rest \<noteq> None" by (simp add: match_day_def Let_def)
qed

lemma re_search_day: "re_search match_day title \<noteq> None \<longleftrightarrow> day_occurs title"
proof
  assume "re_search match_day title \<noteq> None"
  then obtain pre rest where t: "title = pre @ rest"
    and m: "match_day (last_opt None pre) rest \<noteq> None"
    by (auto simp: re_search_def search_from_None_iff)
  from m obtain c post where "rest = ''Day '' @ c # post" and "is_digit c"
    unfolding match_day_iff by auto
  with t have "title = pre @ ''Day '' @ c # post \<and> is_digit c" by simp
  then show "day_occurs title" unfolding day_occurs_def
    by (rule_tac x = pre in exI, rule_tac x = c in exI) (rule exI)
next
  assume "day_occurs title"
  then obtain pre c post where t: "title = pre @ (''Day '' @ c # post)" and d: "is_digit c"
    by (auto simp: day_occurs_def)
  from d have "match_day (last_opt None pre) (''Day '' @ c # post) \<noteq> None"
    unfolding match_day_iff by (rule_tac x = c in exI, rule_tac x = post in exI) simp
  with t show "re_search match_day title \<noteq> None"
    unfolding re_search_def search_from_None_iff by metis
qed

lemma add_day_tag_eq:
  "add_day_tag title tags = tags \<union> (if day_occurs title then {''DailyVlog''} else {})"
  using re_search_day[of title] by (auto simp: add_day_tag_def split: option.splits)

section \<open>The set of tags\<close>

lemma add_keyword_tags_mem:
  "x \<in> add_keyword_tags ks text tags \<longleftrightarrow> x \<in> tags \<or> keyword_tag ks text x"
proof (induction ks arbitrary: tags)
  case Nil
  show ?case by (simp add: keyword_tag_def)
next
  case (Cons k ks)
  have split: "keyword_tag (k # ks) text x \<longleftrightarrow>
      (contains k text \<and> normalize_tag k \<notin> set stoplist \<and> x = normalize_tag k) \<or>
      keyword_tag ks text x"
    by (simp add: keyword_tag_def)
  show ?case
    unfolding add_keyword_tags.simps Cons.IH split by (auto simp: Let_def)
qed

lemma add_keyword_tags_finite: "finite tags \<Longrightarrow> finite (add_keyword_tags ks text tags)"
  by (induction ks arbitrary: tags) (simp_all add: Let_def)

lemma add_state_tags_mem:
  "x \<in> add_state_tags sts title text tags \<longleftrightarrow>
     x \<in> tags \<or> (\<exists>abbr. (abbr, x) \<in> set sts \<and>
        (re_search (match_abbr abbr) title \<noteq> None \<or> contains (lower abbr) text))"
proof (induction sts arbitrary: tags)
  case Nil
  show ?case by simp
next
  case (Cons p sts)
  obtain abbr full where p: "p = (abbr, full)" by (cases p)
  have split: "(\<exists>a. (a, x) \<in> set (p # sts) \<and>
        (re_search (match_abbr a) title \<noteq> None \<or> contains (lower a) text)) \<longleftrightarrow>
      (x = full \<and> (re_search (match_abbr abbr) title \<noteq> None \<or> contains (lower abbr) text)) \<or>
      (\<exists>a. (a, x) \<in> set sts \<and>
        (re_search (match_abbr a) title \<noteq> None \<or> contains (lower a) text))"
    unfolding p by auto
  show ?case
    unfolding split unfolding p add_state_tags.simps Cons.IH by auto
qed

lemma add_state_tags_finite: "finite tags \<Longrightarrow> finite (add_state_tags sts title text tags)"
  by (induction sts title "text" tags rule: add_state_tags.induct) simp_all

lemma add_state_tags_states:
  "x \<in> add_state_tags states title text tags \<longleftrightarrow> x \<in> tags \<or> state_tag title text x"
proof -
  have "(\<exists>abbr. (abbr, x) \<in> set states \<and>
        (re_search (match_abbr abbr) title \<noteq> None \<or> contains (lower abbr) text))
     \<longleftrightarrow> state_tag title text x"
    unfolding state_tag_def using states_abbr_word re_search_abbr by (meson)
  then show ?thesis unfolding add_state_tags_mem by simp
qed

lemma chain_mem:
  "x \<in> (let tags = (if c1 then insert a (insert b tags) else tags);
              tags = (if c2 then insert u tags else tags);
              tags = (if c3 then insert v tags else tags);
              tags = (if c4 then insert w tags else tags);
              tags = (if c5 then insert y tags else tags);
              tags = (if c6 then insert z tags else tags)
          in tags) \<longleftrightarrow>
   x \<in> tags \<or>
     (c1 \<and> (x = a \<or> x = b) \<or> c2 \<and> x = u \<or> c3 \<and> x = v \<or> c4 \<and> x = w \<or>
      c5 \<and> x = y \<or> c6 \<and> x = z)"
  by (auto simp: Let_def)

lemma chain_finite:
  "finite tags \<Longrightarrow>
   finite (let tags = (if c1 then insert a (insert b tags) else tags);
              tags = (if c2 then insert u tags else tags);
              tags = (if c3 then insert v tags else tags);
              tags = (if c4 then insert w tags else tags);
              tags = (if c5 then insert y tags else tags);
              tags = (if c6 then insert z tags else tags)
          in tags)"
  by (simp add: Let_def)

lemma add_pattern_tags_mem:
  "x \<in> add_pattern_tags text tags \<longleftrightarrow> x \<in> tags \<or> pattern_tag text x"
  unfolding add_pattern_tags_def pattern_tag_def by (rule chain_mem)

lemma add_pattern_tags_finite: "finite tags \<Longrightarrow> finite (add_pattern_tags text tags)"
  unfolding add_pattern_tags_def by (rule chain_finite)

lemma tags_before_year_mem:
  "x \<in> add_pattern_tags text (add_state_tags states title text (add_keyword_tags ks text {})) \<longleftrightarrow>
     keyword_tag ks text x \<or> state_tag title text x \<or> pattern_tag text x"
  by (simp only: add_pattern_tags_mem add_state_tags_states add_keyword_tags_mem empty_iff
        simp_thms disj_assoc)

lemma tags_before_year_finite:
  "finite (add_pattern_tags text (add_state_tags states title text (add_keyword_tags ks text {})))"
  by (intro add_pattern_tags_finite add_state_tags_finite add_keyword_tags_finite finite.emptyI)

lemma collect_tags_unfold:
  "collect_tags ks title description =
     Inr (add_day_tag title
       (add_pattern_tags (combined_text title description)
          (add_state_tags states title (combined_text title description)
             (add_keyword_tags ks (combined_text title description) {})) \<union>
        {x. \<exists>pre tok post. first_year title pre tok post \<and> x = ''Year'' @ tok}))"
  unfolding collect_tags_def Let_def add_year_tag_eq by simp

lemma collect_tags_eq:
  "collect_tags ks title description = Inr {x. emitted ks title description x}"
proof -
  have "add_day_tag title
       (add_pattern_tags (combined_text title description)
          (add_state_tags states title (combined_text title description)
             (add_keyword_tags ks (combined_text title description) {})) \<union>
        {x. \<exists>pre tok post. first_year title pre tok post \<and> x = ''Year'' @ tok})
     = {x. emitted ks title description x}"
  proof (rule set_eqI)
    fix x
    show "x \<in> add_day_tag title
       (add_pattern_tags (combined_text title description)
          (add_state_tags states title (combined_text title description)
             (add_keyword_tags ks (combined_text title description) {})) \<union>
        {x. \<exists>pre tok post. first_year title pre tok post \<and> x = ''Year'' @ tok})
     \<longleftrightarrow> x \<in> {x. emitted ks title description x}"
      unfolding add_day_tag_eq Un_iff tags_before_year_mem mem_Collect_eq emitted_def year_tag_def
      by (cases "day_occurs title") simp_all
  qed
  then show ?thesis unfolding collect_tags_unfold by simp
qed

lemma emitted_finite: "finite {x. emitted ks title description x}"
proof -
  have "finite {x. \<exists>pre tok post. first_year title pre tok post \<and> x = ''Year'' @ tok}"
  proof (cases "re_search match_year title")
    case None
    show ?thesis unfolding year_tags_empty[OF None] by (rule finite.emptyI)
  next
    case (Some m)
    from re_search_year_Some[OF this] obtain pre tok post
      where f: "first_year title pre tok post" by auto
    show ?thesis unfolding year_tags_single[OF f] by (intro finite.insertI finite.emptyI)
  qed
  then have "finite (add_day_tag title
       (add_pattern_tags (combined_text title description)
          (add_state_tags states title (combined_text title description)
             (add_keyword_tags ks (combined_text title description) {})) \<union>
        {x. \<exists>pre tok post. first_year title pre tok post \<and> x = ''Year'' @ tok}))"
    unfolding add_day_tag_eq using tags_before_year_finite by simp
  then show ?thesis using collect_tags_eq[of ks title description] unfolding collect_tags_unfold
    by simp
qed

lemma extract_tags_iter_eq:
  "extract_tags_iter ks title description =
     Inr (sorted_list_of_set {x. emitted ks title description x})"
  by (simp add: extract_tags_iter_def collect_tags_eq)

lemma extract_tags_char:
  "\<exists>tags. extract_tags_from_text title description = Inr tags \<and> sorted tags \<and> distinct tags \<and>
     (\<forall>x. x \<in> set tags \<longleftrightarrow> emitted keywords_list title description x)"
  unfolding extract_tags_from_text_def extract_tags_iter_eq
  using emitted_finite[of keywords_list title description] by simp

section \<open>Facts about the tables\<close>

lemma keyword_table_facts:
  "\<forall>k\<in>set keywords_list.
     normalize_tag k \<noteq> [] \<and> \<not> is_year_tag (normalize_tag k) \<and>
     (normalize_tag k = ''DailyVlog'' \<longrightarrow> k = ''daily vlog'') \<and>
     (\<forall>p\<in>set states. normalize_tag k = snd p \<longrightarrow>
        contains (lower (fst p)) k \<or> (k = ''new york'' \<and> fst p = ''NY''))"
  by code_simp

lemma state_table_facts:
  "\<forall>p\<in>set states.
     snd p \<noteq> [] \<and> \<not> is_year_tag (snd p) \<and> snd p \<noteq> ''DailyVlog'' \<and> snd p \<notin> set stoplist \<and>
     \<not> pattern_tag text (snd p) \<and> (\<forall>q\<in>set states. snd q = snd p \<longrightarrow> fst q = fst p)"
  by (simp add: states_def stoplist_def is_year_tag_def pattern_tag_def)

lemma keyword_facts:
  assumes "k \<in> set keywords_list"
  shows "normalize_tag k \<noteq> []"
    and "\<not> is_year_tag (normalize_tag k)"
    and "normalize_tag k = ''DailyVlog'' \<Longrightarrow> k = ''daily vlog''"
    and "p \<in> set states \<Longrightarrow> normalize_tag k = snd p \<Longrightarrow>
           contains (lower (fst p)) k \<or> (k = ''new york'' \<and> fst p = ''NY'')"
proof -
  have a: "normalize_tag k \<noteq> [] \<and> \<not> is_year_tag (normalize_tag k) \<and>
     (normalize_tag k = ''DailyVlog'' \<longrightarrow> k = ''daily vlog'') \<and>
     (\<forall>p\<in>set states. normalize_tag k = snd p \<longrightarrow>
        contains (lower (fst p)) k \<or> (k = ''new york'' \<and> fst p = ''NY''))"
    using keyword_table_facts assms by (rule bspec)
  from a show "normalize_tag k \<noteq> []" by (rule conjunct1)
  from a show "\<not> is_year_tag (normalize_tag k)" by (elim conjE)
  from a show "normalize_tag k = ''DailyVlog'' \<Longrightarrow> k = ''daily vlog''"
    by (elim conjE impE)
  from a have b: "\<forall>p\<in>set states. normalize_tag k = snd p \<longrightarrow>
        contains (lower (fst p)) k \<or> (k = ''new york'' \<and> fst p = ''NY'')"
    by (elim conjE)
  show "p \<in> set states \<Longrightarrow> normalize_tag k = snd p \<Longrightarrow>
           contains (lower (fst p)) k \<or> (k = ''new york'' \<and> fst p = ''NY'')"
    using b[rule_format, of p] by (elim meta_impE)
qed

lemma state_facts:
  assumes "(abbr, full) \<in> set states"
  shows "full \<noteq> []" and "\<not> is_year_tag full" and "full \<noteq> ''DailyVlog''"
    and "full \<notin> set stoplist" and "\<not> pattern_tag text full"
    and "(abbr2, full) \<in> set states \<Longrightarrow> abbr2 = abbr"
proof -
  have a: "snd (abbr, full) \<noteq> [] \<and> \<not> is_year_tag (snd (abbr, full)) \<and>
     snd (abbr, full) \<noteq> ''DailyVlog'' \<and> snd (abbr, full) \<notin> set stoplist \<and>
     \<not> pattern_tag text (snd (abbr, full)) \<and>
     (\<forall>q\<in>set states. snd q = snd (abbr, full) \<longrightarrow> fst q = fst (abbr, full))"
    using state_table_facts assms by (rule bspec)
  from a have c: "full \<noteq> [] \<and> \<not> is_year_tag full \<and> full \<noteq> ''DailyVlog'' \<and>
      full \<notin> set stoplist \<and> \<not> pattern_tag text full"
    unfolding snd_conv fst_conv by (elim conjE, intro conjI)
  from c show "full \<noteq> []" by (elim conjE)
  from c show "\<not> is_year_tag full" by (elim conjE)
  from c show "full \<noteq> ''DailyVlog''" by (elim conjE)
  from c show "full \<notin> set stoplist" by (elim conjE)
  from c show "\<not> pattern_tag text full" by (elim conjE)
  from a have b: "\<forall>q\<in>set states. snd q = full \<longrightarrow> fst q = abbr"
    unfolding snd_conv fst_conv by (elim conjE)
  show "(abbr2, full) \<in> set states \<Longrightarrow> abbr2 = abbr"
    using b[rule_format, of "(abbr2, full)"] by simp
qed

lemma keyword_tag_nonempty:
  assumes "keyword_tag keywords_list text x"
  shows "x \<noteq> []"
proof -
  from assms obtain k where "k \<in> set keywords_list" and "x = normalize_tag k"
    unfolding keyword_tag_def by (elim bexE conjE)
  then show ?thesis using keyword_facts(1) by simp
qed

lemma keyword_tag_not_year:
  assumes "keyword_tag keywords_list text x"
  shows "\<not> is_year_tag x"
proof -
  from assms obtain k where "k \<in> set keywords_list" and "x = normalize_tag k"
    unfolding keyword_tag_def by (elim bexE conjE)
  then show ?thesis using keyword_facts(2) by simp
qed

lemma keyword_tag_not_stop: "keyword_tag ks text x \<Longrightarrow> x \<notin> set stoplist"
  unfolding keyword_tag_def by (elim bexE conjE) simp



lemma pattern_tag_nonempty: "pattern_tag text x \<Longrightarrow> x \<noteq> []"
  unfolding pattern_tag_def by auto

lemma pattern_tag_not_year: "pattern_tag text x \<Longrightarrow> \<not> is_year_tag x"
  unfolding pattern_tag_def is_year_tag_def by auto

lemma pattern_tag_not_stop: "pattern_tag text x \<Longrightarrow> x \<notin> set stoplist"
  unfolding pattern_tag_def stoplist_def by auto

lemma pattern_tag_DailyVlog:
  "pattern_tag text ''DailyVlog'' \<longleftrightarrow>
     contains ''daily woo'' text \<or> contains ''the daily woo'' text"
  unfolding pattern_tag_def by simp

lemma pattern_tag_DailyWoo:
  "pattern_tag text ''DailyWoo'' \<longleftrightarrow>
     contains ''daily woo'' text \<or> contains ''the daily woo'' text"
  unfolding pattern_tag_def by simp


lemma year_tag_not_stop: "year_tag title x \<Longrightarrow> x \<notin> set stoplist"
  unfolding year_tag_def stoplist_def by auto

lemma year_tag_unique: "year_tag title x \<Longrightarrow> year_tag title y \<Longrightarrow> x = y"
  unfolding year_tag_def using first_year_unique by blast

section \<open>Where a tag comes from\<close>

lemma emitted_nonempty:
  assumes "emitted keywords_list title description x"
  shows "x \<noteq> []"
proof -
  from assms consider
      (kw) "keyword_tag keywords_list (combined_text title description) x"
    | (st) "state_tag title (combined_text title description) x"
    | (pt) "pattern_tag (combined_text title description) x"
    | (yr) "year_tag title x"
    | (dy) "x = ''DailyVlog''"
    unfolding emitted_def by (elim disjE conjE)
  then show ?thesis
  proof cases
    case kw
    then show ?thesis by (rule keyword_tag_nonempty)
  next
    case st
    then obtain abbr where "(abbr, x) \<in> set states" unfolding state_tag_def by (elim exE conjE)
    then show ?thesis by (rule state_facts(1))
  next
    case pt
    then show ?thesis by (rule pattern_tag_nonempty)
  next
    case yr
    then show ?thesis unfolding year_tag_def by (elim exE conjE) simp
  next
    case dy
    then show ?thesis by simp
  qed
qed

lemma emitted_not_stop:
  assumes "emitted ks title description x"
  shows "x \<notin> set stoplist"
proof -
  from assms consider
      (kw) "keyword_tag ks (combined_text title description) x"
    | (st) "state_tag title (combined_text title description) x"
    | (pt) "pattern_tag (combined_text title description) x"
    | (yr) "year_tag title x"
    | (dy) "x = ''DailyVlog''"
    unfolding emitted_def by (elim disjE conjE)
  then show ?thesis
  proof cases
    case kw
    then show ?thesis by (rule keyword_tag_not_stop)
  next
    case st
    then obtain abbr where "(abbr, x) \<in> set states" unfolding state_tag_def by (elim exE conjE)
    then show ?thesis by (rule state_facts(4))
  next
    case pt
    then show ?thesis by (rule pattern_tag_not_stop)
  next
    case yr
    then show ?thesis by (rule year_tag_not_stop)
  next
    case dy
    then show ?thesis by (simp add: stoplist_def)
  qed
qed

lemma emitted_year:
  assumes "emitted keywords_list title description x" and "is_year_tag x"
  shows "year_tag title x"
proof -
  from assms(1) consider
      (kw) "keyword_tag keywords_list (combined_text title description) x"
    | (st) "state_tag title (combined_text title description) x"
    | (pt) "pattern_tag (combined_text title description) x"
    | (yr) "year_tag title x"
    | (dy) "x = ''DailyVlog''"
    unfolding emitted_def by (elim disjE conjE)
  then show ?thesis
  proof cases
    case kw
    from keyword_tag_not_year[OF this] assms(2) show ?thesis by simp
  next
    case st
    then obtain abbr where "(abbr, x) \<in> set states" unfolding state_tag_def by (elim exE conjE)
    from state_facts(2)[OF this] assms(2) show ?thesis by simp
  next
    case pt
    from pattern_tag_not_year[OF this] assms(2) show ?thesis by simp
  next
    case yr
    then show ?thesis .
  next
    case dy
    with assms(2) show ?thesis by (simp add: is_year_tag_def)
  qed
qed



lemma emitted_keyword:
  "k \<in> set ks \<Longrightarrow> contains k (combined_text title description) \<Longrightarrow>
   normalize_tag k \<notin> set stoplist \<Longrightarrow> emitted ks title description (normalize_tag k)"
  unfolding emitted_def keyword_tag_def by blast

lemma emitted_state_tag:
  "(abbr, full) \<in> set states \<Longrightarrow>
   abbr_occurs abbr title \<or> contains (lower abbr) (combined_text title description) \<Longrightarrow>
   emitted ks title description full"
  unfolding emitted_def state_tag_def by blast

lemma emitted_set_cong: "set ks = set ks2 \<Longrightarrow> emitted ks title description x = emitted ks2 title description x"
  unfolding emitted_def keyword_tag_def by simp

lemma any_in_append: "any_in ws s \<Longrightarrow> any_in ws (s @ t)"
  unfolding any_in_def list_ex_iff using contains_append by blast

lemma pattern_tag_append: "pattern_tag s x \<Longrightarrow> pattern_tag (s @ t) x"
  unfolding pattern_tag_def
  by (elim disjE conjE) (simp_all only: any_in_append contains_append simp_thms)

lemma emitted_append:
  assumes "emitted ks title description x"
  shows "emitted ks title (description @ extra) x"
proof -
  let ?s = "combined_text title description"
  have t: "combined_text title (description @ extra) = ?s @ lower extra"
    by (rule combined_text_append)
  from assms consider
      (kw) "keyword_tag ks ?s x" | (st) "state_tag title ?s x" | (pt) "pattern_tag ?s x"
    | (yr) "year_tag title x" | (dy) "x = ''DailyVlog'' \<and> day_occurs title"
    unfolding emitted_def by (elim disjE)
  then show ?thesis
  proof cases
    case kw
    then have "keyword_tag ks (?s @ lower extra) x"
      unfolding keyword_tag_def using contains_append by blast
    then show ?thesis unfolding emitted_def t by simp
  next
    case st
    then have "state_tag title (?s @ lower extra) x"
      unfolding state_tag_def using contains_append by blast
    then show ?thesis unfolding emitted_def t by simp
  next
    case pt
    then have "pattern_tag (?s @ lower extra) x" by (rule pattern_tag_append)
    then show ?thesis unfolding emitted_def t by simp
  next
    case yr
    then show ?thesis unfolding emitted_def by simp
  next
    case dy
    then show ?thesis unfolding emitted_def by simp
  qed
qed

section \<open>The claims\<close>

text \<open>
  Claim C1.  For every title and description \<^verbatim>\<open>extract_tags_from_text\<close> returns a list
  that is sorted lexicographically, has no duplicate entries and does not contain the
  empty string.
\<close>

theorem tags_sorted_distinct_nonempty:
  "\<exists>tags. extract_tags_from_text title description = Inr tags \<and>
     sorted tags \<and> distinct tags \<and> [] \<notin> set tags"
proof -
  from extract_tags_char[of title description]
  obtain tags where r: "extract_tags_from_text title description = Inr tags"
    and s: "sorted tags" and d: "distinct tags"
    and m: "\<forall>x. x \<in> set tags \<longleftrightarrow> emitted keywords_list title description x"
    by blast
  have "[] \<notin> set tags" using m emitted_nonempty[of title description "[]"] by blast
  with r s d show ?thesis by (intro exI[of _ tags] conjI)
qed

text \<open>The list returned for the title \<^verbatim>\<open>Daily Woo Day 47\<close>.\<close>

theorem tags_sorted_distinct_nonempty_witness:
  "extract_tags_from_text ''Daily Woo Day 47'' '''' = Inr [''DailyVlog'', ''DailyWoo''] \<and>
   sorted [''DailyVlog'', ''DailyWoo''] \<and> distinct [''DailyVlog'', ''DailyWoo''] \<and>
   [] \<notin> set [''DailyVlog'', ''DailyWoo'']"
proof -
  have e: "extract_tags_from_text ''Daily Woo Day 47'' '''' = Inr [''DailyVlog'', ''DailyWoo'']"
    by code_simp
  from tags_sorted_distinct_nonempty[of "''Daily Woo Day 47''" "''''"]
  obtain tags where "extract_tags_from_text ''Daily Woo Day 47'' '''' = Inr tags"
    and "sorted tags \<and> distinct tags \<and> [] \<notin> set tags" by blast
  with e have "sorted [''DailyVlog'', ''DailyWoo''] \<and> distinct [''DailyVlog'', ''DailyWoo''] \<and>
   [] \<notin> set [''DailyVlog'', ''DailyWoo'']" by simp
  with e show ?thesis by (rule conjI)
qed

text \<open>
  Claim C3.  For every entry of the state mapping, the canonical tag is in the result
  whenever the abbreviation occurs in the original-case title delimited as a word, or the
  lowercased abbreviation is a substring of the lowercase combined text (the title, a
  space, the description).
\<close>

theorem state_tag_emitted:
  assumes "(abbr, full) \<in> set states"
    and "abbr_occurs abbr title \<or> contains (lower abbr) (lower (title @ '' '' @ description))"
  shows "\<exists>tags. extract_tags_from_text title description = Inr tags \<and> full \<in> set tags"
proof -
  from extract_tags_char[of title description]
  obtain tags where r: "extract_tags_from_text title description = Inr tags"
    and m: "\<forall>x. x \<in> set tags \<longleftrightarrow> emitted keywords_list title description x"
    by blast
  from assms(2) have "abbr_occurs abbr title \<or> contains (lower abbr) (combined_text title description)"
    unfolding combined_text_def .
  from emitted_state_tag[OF assms(1) this] have "full \<in> set tags" using m by blast
  with r show ?thesis by (intro exI[of _ tags] conjI)
qed

text \<open>The abbreviation \<^verbatim>\<open>FL\<close> as the last word of a title.\<close>

theorem state_tag_emitted_witness:
  "(''FL'', ''Florida'') \<in> set states \<and> abbr_occurs ''FL'' ''Visit FL'' \<and>
   extract_tags_from_text ''Visit FL'' '''' = Inr [''Florida''] \<and>
   ''Florida'' \<in> set [''Florida'']"
proof -
  have a: "(''FL'', ''Florida'') \<in> set states" by (simp add: states_def)
  have "''Visit FL'' = ''Visit '' @ ''FL'' @ [] \<and> word_delimited ''Visit '' []"
    by (simp add: word_delimited_def is_word_def code_point_def)
  then have b: "abbr_occurs ''FL'' ''Visit FL''" unfolding abbr_occurs_def
    by (rule_tac x = "''Visit ''" in exI, rule_tac x = "[]" in exI)
  have e: "extract_tags_from_text ''Visit FL'' '''' = Inr [''Florida'']" by code_simp
  from state_tag_emitted[OF a disjI1[OF b], of "''''"]
  obtain tags where "extract_tags_from_text ''Visit FL'' '''' = Inr tags"
    and "''Florida'' \<in> set tags" by blast
  with e have "''Florida'' \<in> set [''Florida'']" by simp
  with a b e show ?thesis by (intro conjI)
qed

text \<open>
  Claim C7.  \<^verbatim>\<open>extract_tags_from_text\<close> returns a list for every title and
  description and raises no error: the one call that could raise, \<^verbatim>\<open>group(1)\<close> on
  the year match, always finds its group.  For the empty title and the empty description
  the list is empty.
\<close>

theorem extract_total:
  "(\<exists>tags. extract_tags_from_text title description = Inr tags) \<and>
   extract_tags_from_text [] [] = Inr []"
proof
  from extract_tags_char[of title description]
  show "\<exists>tags. extract_tags_from_text title description = Inr tags" by blast
  show "extract_tags_from_text [] [] = Inr []" by code_simp
qed

text \<open>The same at a title and a description that are not empty.\<close>

theorem extract_total_witness:
  "(\<exists>tags. extract_tags_from_text ''Mall tour'' ''in FL'' = Inr tags) \<and>
   extract_tags_from_text [] [] = Inr []"
  by (rule extract_total)

lemma distinct_all_equal_length:
  "distinct xs \<Longrightarrow> (\<And>x y. x \<in> set xs \<Longrightarrow> y \<in> set xs \<Longrightarrow> x = y) \<Longrightarrow> length xs \<le> 1"
proof (cases xs)
  case Nil
  then show ?thesis by simp
next
  case (Cons a as)
  assume d: "distinct xs" and e: "\<And>x y. x \<in> set xs \<Longrightarrow> y \<in> set xs \<Longrightarrow> x = y"
  have "as = []"
  proof (cases as)
    case Nil
    then show ?thesis .
  next
    case (Cons b bs)
    with \<open>xs = a # as\<close> e[of a b] have "a = b" by simp
    with d \<open>xs = a # as\<close> Cons show ?thesis by simp
  qed
  with Cons show ?thesis by simp
qed

lemma keyword_tags_pascal_case:
  "\<forall>k\<in>set keywords_list. normalize_tag k = pascal_case k \<and> CHR '' '' \<notin> set (pascal_case k)"
  by code_simp

lemma pascal_case_keywords:
  "map pascal_case keywords_list =
      [''Florida'', ''Orlando'', ''Disney'', ''Disneyland'', ''Universal'', ''California'',
       ''LasVegas'', ''NewYork'', ''Hollywood'', ''LosAngeles'', ''Miami'', ''Tokyo'',
       ''Epcot'', ''MagicKingdom'', ''HollywoodStudios'', ''AnimalKingdom'', ''Kissimmee'',
       ''StCloud'', ''SanDiego'', ''Japan'', ''Paris'', ''London'', ''Abandoned'', ''Hotel'',
       ''Motel'', ''Restaurant'', ''ThemePark'', ''AmusementPark'', ''Mall'',
       ''ShoppingCenter'', ''Museum'', ''Attraction'', ''Resort'', ''Casino'', ''Park'',
       ''Beach'', ''Airport'', ''TrainStation'', ''GhostTown'', ''Exploring'', ''Vlog'',
       ''DailyVlog'', ''Tour'', ''Review'', ''Unboxing'', ''Shopping'', ''Eating'', ''Dining'',
       ''Traveling'', ''Hiking'', ''Walking'', ''Ride'', ''RollerCoaster'', ''Adventure'',
       ''UrbanExploration'', ''StarWars'', ''Marvel'', ''HarryPotter'', ''Transformers'',
       ''Jurassic'', ''Walmart'', ''Target'', ''Mcdonalds'', ''TacoBell'', ''Arbys'',
       ''Wendys'', ''PizzaHut'', ''BurgerKing'', ''Kfc'', ''Subway'', ''Christmas'',
       ''Halloween'', ''Thanksgiving'', ''NewYear'', ''Birthday'', ''FourthOfJuly'',
       ''Easter'', ''Valentine'', ''Haunted'', ''Scary'', ''Creepy'', ''Mysterious'',
       ''Historic'', ''Vintage'', ''Retro'', ''Nostalgic'', ''BehindTheScenes'',
       ''Construction'', ''Demolition'', ''Closed'', ''OpeningDay'', ''GrandOpening'',
       ''LastDay'', ''Final'', ''RoadTrip'', ''VanLife'', ''Driving'', ''Flight'', ''Cruise'',
       ''Train'', ''Food'', ''Buffet'', ''Breakfast'', ''Lunch'', ''Dinner'', ''Snack'',
       ''Dessert'']"
  by code_simp

text \<open>
  Claim C4.  For every keyword of the vocabulary that is a substring of the lowercase
  combined text, the result contains the tag of the keyword, unless that tag is a word of
  the stoplist, in which case the tag is not in the result.  The tag is the keyword
  title-cased and with its spaces removed: it is named here by \<^const>\<open>pascal_case\<close>,
  which the program's \<^verbatim>\<open>keyword.title().replace(' ', '')\<close> equals on every keyword, it
  holds no space, and the tags of the 107 keywords are listed.  No keyword of the program
  has a tag in the stoplist, so the stoplist test is also stated for the loop run over any
  vocabulary.  The keywords match whatever the case of the input: the result for the title
  \<^verbatim>\<open>Exploring an ABANDONED Mall in FL\<close> and the empty description contains
  \<^verbatim>\<open>Exploring\<close>, \<^verbatim>\<open>Abandoned\<close> and \<^verbatim>\<open>Mall\<close>, and the title
  \<^verbatim>\<open>Las Vegas\<close> gives the tag \<^verbatim>\<open>LasVegas\<close> of a keyword of two words.
\<close>

theorem keyword_tag_emitted:
  "(\<forall>title description keyword.
      keyword \<in> set keywords_list \<and> contains keyword (lower (title @ '' '' @ description)) \<longrightarrow>
      (\<exists>tags. extract_tags_from_text title description = Inr tags \<and>
         CHR '' '' \<notin> set (pascal_case keyword) \<and>
         (if pascal_case keyword \<in> set stoplist then pascal_case keyword \<notin> set tags
          else pascal_case keyword \<in> set tags))) \<and>
   (\<forall>ks title description keyword.
      keyword \<in> set ks \<and> contains keyword (lower (title @ '' '' @ description)) \<longrightarrow>
      (\<exists>tags. extract_tags_iter ks title description = Inr tags \<and>
         (if normalize_tag keyword \<in> set stoplist then normalize_tag keyword \<notin> set tags
          else normalize_tag keyword \<in> set tags))) \<and>
   map normalize_tag keywords_list = map pascal_case keywords_list \<and>
   map pascal_case keywords_list =
      [''Florida'', ''Orlando'', ''Disney'', ''Disneyland'', ''Universal'', ''California'',
       ''LasVegas'', ''NewYork'', ''Hollywood'', ''LosAngeles'', ''Miami'', ''Tokyo'',
       ''Epcot'', ''MagicKingdom'', ''HollywoodStudios'', ''AnimalKingdom'', ''Kissimmee'',
       ''StCloud'', ''SanDiego'', ''Japan'', ''Paris'', ''London'', ''Abandoned'', ''Hotel'',
       ''Motel'', ''Restaurant'', ''ThemePark'', ''AmusementPark'', ''Mall'',
       ''ShoppingCenter'', ''Museum'', ''Attraction'', ''Resort'', ''Casino'', ''Park'',
       ''Beach'', ''Airport'', ''TrainStation'', ''GhostTown'', ''Exploring'', ''Vlog'',
       ''DailyVlog'', ''Tour'', ''Review'', ''Unboxing'', ''Shopping'', ''Eating'', ''Dining'',
       ''Traveling'', ''Hiking'', ''Walking'', ''Ride'', ''RollerCoaster'', ''Adventure'',
       ''UrbanExploration'', ''StarWars'', ''Marvel'', ''HarryPotter'', ''Transformers'',
       ''Jurassic'', ''Walmart'', ''Target'', ''Mcdonalds'', ''TacoBell'', ''Arbys'',
       ''Wendys'', ''PizzaHut'', ''BurgerKing'', ''Kfc'', ''Subway'', ''Christmas'',
       ''Halloween'', ''Thanksgiving'', ''NewYear'', ''Birthday'', ''FourthOfJuly'',
       ''Easter'', ''Valentine'', ''Haunted'', ''Scary'', ''Creepy'', ''Mysterious'',
       ''Historic'', ''Vintage'', ''Retro'', ''Nostalgic'', ''BehindTheScenes'',
       ''Construction'', ''Demolition'', ''Closed'', ''OpeningDay'', ''GrandOpening'',
       ''LastDay'', ''Final'', ''RoadTrip'', ''VanLife'', ''Driving'', ''Flight'', ''Cruise'',
       ''Train'', ''Food'', ''Buffet'', ''Breakfast'', ''Lunch'', ''Dinner'', ''Snack'',
       ''Dessert''] \<and>
   (\<exists>tags. extract_tags_from_text ''Exploring an ABANDONED Mall in FL'' '''' = Inr tags \<and>
      ''Exploring'' \<in> set tags \<and> ''Abandoned'' \<in> set tags \<and> ''Mall'' \<in> set tags) \<and>
   extract_tags_from_text ''Las Vegas'' '''' = Inr [''Georgia'', ''LasVegas'']"
proof (intro conjI)
  have general: "\<exists>tags. extract_tags_iter ks title description = Inr tags \<and>
         (if normalize_tag keyword \<in> set stoplist then normalize_tag keyword \<notin> set tags
          else normalize_tag keyword \<in> set tags)"
    if k: "keyword \<in> set ks"
      and c: "contains keyword (lower (title @ '' '' @ description))"
    for ks title description keyword
  proof -
    let ?T = "{x. emitted ks title description x}"
    have r: "extract_tags_iter ks title description = Inr (sorted_list_of_set ?T)"
      by (rule extract_tags_iter_eq)
    have m: "x \<in> set (sorted_list_of_set ?T) \<longleftrightarrow> emitted ks title description x" for x
      using emitted_finite[of ks title description] by simp
    from c have c2: "contains keyword (combined_text title description)"
      unfolding combined_text_def .
    have "if normalize_tag keyword \<in> set stoplist
          then normalize_tag keyword \<notin> set (sorted_list_of_set ?T)
          else normalize_tag keyword \<in> set (sorted_list_of_set ?T)"
    proof (cases "normalize_tag keyword \<in> set stoplist")
      case True
      have "\<not> emitted ks title description (normalize_tag keyword)"
        using emitted_not_stop[of ks title description "normalize_tag keyword"] True
        by blast
      with True show ?thesis unfolding m by simp
    next
      case False
      from emitted_keyword[OF k c2 False] False show ?thesis unfolding m by simp
    qed
    with r show ?thesis by (intro exI[of _ "sorted_list_of_set ?T"] conjI)
  qed
  show "\<forall>ks title description keyword.
      keyword \<in> set ks \<and> contains keyword (lower (title @ '' '' @ description)) \<longrightarrow>
      (\<exists>tags. extract_tags_iter ks title description = Inr tags \<and>
         (if normalize_tag keyword \<in> set stoplist then normalize_tag keyword \<notin> set tags
          else normalize_tag keyword \<in> set tags))"
    using general by blast
  show "\<forall>title description keyword.
      keyword \<in> set keywords_list \<and> contains keyword (lower (title @ '' '' @ description)) \<longrightarrow>
      (\<exists>tags. extract_tags_from_text title description = Inr tags \<and>
         CHR '' '' \<notin> set (pascal_case keyword) \<and>
         (if pascal_case keyword \<in> set stoplist then pascal_case keyword \<notin> set tags
          else pascal_case keyword \<in> set tags))"
  proof (intro allI impI)
    fix title description keyword
    assume a: "keyword \<in> set keywords_list \<and>
      contains keyword (lower (title @ '' '' @ description))"
    then have k: "keyword \<in> set keywords_list"
      and c: "contains keyword (lower (title @ '' '' @ description))" by simp_all
    from keyword_tags_pascal_case k
    have "normalize_tag keyword = pascal_case keyword \<and> CHR '' '' \<notin> set (pascal_case keyword)"
      by (rule bspec)
    then have n: "normalize_tag keyword = pascal_case keyword"
      and s: "CHR '' '' \<notin> set (pascal_case keyword)" by simp_all
    from general[OF k c] obtain tags
      where r: "extract_tags_iter keywords_list title description = Inr tags"
        and i: "if normalize_tag keyword \<in> set stoplist then normalize_tag keyword \<notin> set tags
          else normalize_tag keyword \<in> set tags" by blast
    from r have "extract_tags_from_text title description = Inr tags"
      unfolding extract_tags_from_text_def .
    moreover from i have "if pascal_case keyword \<in> set stoplist then pascal_case keyword \<notin> set tags
          else pascal_case keyword \<in> set tags" unfolding n .
    ultimately show "\<exists>tags. extract_tags_from_text title description = Inr tags \<and>
         CHR '' '' \<notin> set (pascal_case keyword) \<and>
         (if pascal_case keyword \<in> set stoplist then pascal_case keyword \<notin> set tags
          else pascal_case keyword \<in> set tags)"
      using s by (intro exI[of _ tags] conjI)
  qed
  show "map normalize_tag keywords_list = map pascal_case keywords_list"
    using keyword_tags_pascal_case by simp
  show "map pascal_case keywords_list =
      [''Florida'', ''Orlando'', ''Disney'', ''Disneyland'', ''Universal'', ''California'',
       ''LasVegas'', ''NewYork'', ''Hollywood'', ''LosAngeles'', ''Miami'', ''Tokyo'',
       ''Epcot'', ''MagicKingdom'', ''HollywoodStudios'', ''AnimalKingdom'', ''Kissimmee'',
       ''StCloud'', ''SanDiego'', ''Japan'', ''Paris'', ''London'', ''Abandoned'', ''Hotel'',
       ''Motel'', ''Restaurant'', ''ThemePark'', ''AmusementPark'', ''Mall'',
       ''ShoppingCenter'', ''Museum'', ''Attraction'', ''Resort'', ''Casino'', ''Park'',
       ''Beach'', ''Airport'', ''TrainStation'', ''GhostTown'', ''Exploring'', ''Vlog'',
       ''DailyVlog'', ''Tour'', ''Review'', ''Unboxing'', ''Shopping'', ''Eating'', ''Dining'',
       ''Traveling'', ''Hiking'', ''Walking'', ''Ride'', ''RollerCoaster'', ''Adventure'',
       ''UrbanExploration'', ''StarWars'', ''Marvel'', ''HarryPotter'', ''Transformers'',
       ''Jurassic'', ''Walmart'', ''Target'', ''Mcdonalds'', ''TacoBell'', ''Arbys'',
       ''Wendys'', ''PizzaHut'', ''BurgerKing'', ''Kfc'', ''Subway'', ''Christmas'',
       ''Halloween'', ''Thanksgiving'', ''NewYear'', ''Birthday'', ''FourthOfJuly'',
       ''Easter'', ''Valentine'', ''Haunted'', ''Scary'', ''Creepy'', ''Mysterious'',
       ''Historic'', ''Vintage'', ''Retro'', ''Nostalgic'', ''BehindTheScenes'',
       ''Construction'', ''Demolition'', ''Closed'', ''OpeningDay'', ''GrandOpening'',
       ''LastDay'', ''Final'', ''RoadTrip'', ''VanLife'', ''Driving'', ''Flight'', ''Cruise'',
       ''Train'', ''Food'', ''Buffet'', ''Breakfast'', ''Lunch'', ''Dinner'', ''Snack'',
       ''Dessert'']"
    by (rule pascal_case_keywords)
  have "extract_tags_from_text ''Exploring an ABANDONED Mall in FL'' '''' =
      Inr [''Abandoned'', ''Exploring'', ''Florida'', ''Mall'', ''UrbanExploration'']"
    by code_simp
  then show "\<exists>tags. extract_tags_from_text ''Exploring an ABANDONED Mall in FL'' '''' = Inr tags \<and>
      ''Exploring'' \<in> set tags \<and> ''Abandoned'' \<in> set tags \<and> ''Mall'' \<in> set tags"
    by simp
  show "extract_tags_from_text ''Las Vegas'' '''' = Inr [''Georgia'', ''LasVegas'']"
    by code_simp
qed

text \<open>
  A keyword of two words in a title, and a vocabulary with the stoplist word
  \<^verbatim>\<open>the\<close>, whose tag is discarded.
\<close>

theorem keyword_tag_emitted_witness:
  "''las vegas'' \<in> set keywords_list \<and>
   contains ''las vegas'' (lower (''Las Vegas'' @ '' '' @ '''')) \<and>
   pascal_case ''las vegas'' = ''LasVegas'' \<and> ''LasVegas'' \<notin> set stoplist \<and>
   (\<exists>tags. extract_tags_from_text ''Las Vegas'' '''' = Inr tags \<and> ''LasVegas'' \<in> set tags) \<and>
   ''the'' \<in> set [''the'', ''mall''] \<and>
   contains ''the'' (lower (''the mall'' @ '' '' @ '''')) \<and>
   normalize_tag ''the'' = ''The'' \<and> ''The'' \<in> set stoplist \<and>
   extract_tags_iter [''the'', ''mall''] ''the mall'' '''' = Inr [''Mall''] \<and>
   ''The'' \<notin> set [''Mall'']"
proof -
  have k: "''las vegas'' \<in> set keywords_list" by (simp add: keywords_list_def)
  have c: "contains ''las vegas'' (lower (''Las Vegas'' @ '' '' @ ''''))" by code_simp
  have n: "pascal_case ''las vegas'' = ''LasVegas''" by code_simp
  have s: "''LasVegas'' \<notin> set stoplist" by (simp add: stoplist_def)
  have k2: "''the'' \<in> set [''the'', ''mall'']" by simp
  have c2: "contains ''the'' (lower (''the mall'' @ '' '' @ ''''))" by code_simp
  have n2: "normalize_tag ''the'' = ''The''" by code_simp
  have s2: "''The'' \<in> set stoplist" by (simp add: stoplist_def)
  have e2: "extract_tags_iter [''the'', ''mall''] ''the mall'' '''' = Inr [''Mall'']" by code_simp
  from keyword_tag_emitted
  have g1: "\<forall>title description keyword.
      keyword \<in> set keywords_list \<and> contains keyword (lower (title @ '' '' @ description)) \<longrightarrow>
      (\<exists>tags. extract_tags_from_text title description = Inr tags \<and>
         CHR '' '' \<notin> set (pascal_case keyword) \<and>
         (if pascal_case keyword \<in> set stoplist then pascal_case keyword \<notin> set tags
          else pascal_case keyword \<in> set tags))"
    by (rule conjunct1)
  from keyword_tag_emitted
  have g2: "\<forall>ks title description keyword.
      keyword \<in> set ks \<and> contains keyword (lower (title @ '' '' @ description)) \<longrightarrow>
      (\<exists>tags. extract_tags_iter ks title description = Inr tags \<and>
         (if normalize_tag keyword \<in> set stoplist then normalize_tag keyword \<notin> set tags
          else normalize_tag keyword \<in> set tags))"
    by (rule conjunct2[THEN conjunct1])
  from g1[rule_format, of "''las vegas''" "''Las Vegas''" "''''"] k c
  have "\<exists>tags. extract_tags_from_text ''Las Vegas'' '''' = Inr tags \<and>
         CHR '' '' \<notin> set (pascal_case ''las vegas'') \<and>
         (if pascal_case ''las vegas'' \<in> set stoplist then pascal_case ''las vegas'' \<notin> set tags
          else pascal_case ''las vegas'' \<in> set tags)"
    by blast
  then have a1: "\<exists>tags. extract_tags_from_text ''Las Vegas'' '''' = Inr tags \<and>
      ''LasVegas'' \<in> set tags"
    unfolding n using s by auto
  from g2[rule_format, of "''the''" "[''the'', ''mall'']" "''the mall''" "''''"] k2 c2
  obtain tags where "extract_tags_iter [''the'', ''mall''] ''the mall'' '''' = Inr tags"
    and "if normalize_tag ''the'' \<in> set stoplist then normalize_tag ''the'' \<notin> set tags
          else normalize_tag ''the'' \<in> set tags"
    by blast
  with e2 s2 have a2: "''The'' \<notin> set [''Mall'']" unfolding n2 by simp
  from k c n s a1 k2 c2 n2 s2 e2 a2 show ?thesis by (intro conjI)
qed

lemma distinct_count_list: "distinct xs \<Longrightarrow> x \<in> set xs \<Longrightarrow> count_list xs x = 1"
  by (induction xs) (auto simp: count_list_0_iff)

lemma emitted_year_tag: "year_tag title x \<Longrightarrow> emitted ks title description x"
  unfolding emitted_def by simp

lemma emitted_pattern_tag:
  "pattern_tag (combined_text title description) x \<Longrightarrow> emitted ks title description x"
  unfolding emitted_def by simp

lemma emitted_day: "day_occurs title \<Longrightarrow> emitted ks title description ''DailyVlog''"
  unfolding emitted_def by simp

text \<open>
  Claim C5.  The result never holds more than one tag of the form \<^verbatim>\<open>Year...\<close>, and
  for every title in which a token \<^verbatim>\<open>20\<close> and two digits occurs delimited as a word,
  the result contains \<^verbatim>\<open>Year\<close> followed by the first such token.  The result for
  the title \<^verbatim>\<open>Disney Epcot Food Tour 2022\<close> and the description
  \<^verbatim>\<open>Eating our way through Epcot\<close> contains \<^verbatim>\<open>Year2022\<close>.
\<close>

theorem year_tag_first_match:
  "(\<forall>title description. \<exists>tags. extract_tags_from_text title description = Inr tags \<and>
       length (filter is_year_tag tags) \<le> 1 \<and>
       (\<forall>pre tok post. year_occurs title pre tok post \<longrightarrow>
          (\<exists>pre0 tok0 post0. first_year title pre0 tok0 post0 \<and> ''Year'' @ tok0 \<in> set tags))) \<and>
   (\<exists>tags. extract_tags_from_text ''Disney Epcot Food Tour 2022''
              ''Eating our way through Epcot'' = Inr tags \<and> ''Year2022'' \<in> set tags)"
proof
  show "\<forall>title description. \<exists>tags. extract_tags_from_text title description = Inr tags \<and>
       length (filter is_year_tag tags) \<le> 1 \<and>
       (\<forall>pre tok post. year_occurs title pre tok post \<longrightarrow>
          (\<exists>pre0 tok0 post0. first_year title pre0 tok0 post0 \<and> ''Year'' @ tok0 \<in> set tags))"
  proof (intro allI)
    fix title description
    from extract_tags_char[of title description]
    obtain tags where r: "extract_tags_from_text title description = Inr tags"
      and d: "distinct tags"
      and m: "\<forall>x. x \<in> set tags \<longleftrightarrow> emitted keywords_list title description x"
      by blast
    have one: "length (filter is_year_tag tags) \<le> 1"
    proof (rule distinct_all_equal_length)
      show "distinct (filter is_year_tag tags)" using d by simp
    next
      fix x y
      assume "x \<in> set (filter is_year_tag tags)" and "y \<in> set (filter is_year_tag tags)"
      then have "emitted keywords_list title description x" and "is_year_tag x"
        and "emitted keywords_list title description y" and "is_year_tag y"
        using m by simp_all
      then have "year_tag title x" and "year_tag title y"
        using emitted_year by blast+
      then show "x = y" by (rule year_tag_unique)
    qed
    have first: "\<forall>pre tok post. year_occurs title pre tok post \<longrightarrow>
          (\<exists>pre0 tok0 post0. first_year title pre0 tok0 post0 \<and> ''Year'' @ tok0 \<in> set tags)"
    proof (intro allI impI)
      fix pre tok post
      assume "year_occurs title pre tok post"
      from first_year_exists[OF this] obtain pre0 tok0 post0
        where f: "first_year title pre0 tok0 post0" by blast
      then have "year_tag title (''Year'' @ tok0)" unfolding year_tag_def by blast
      then have "emitted keywords_list title description (''Year'' @ tok0)"
        by (rule emitted_year_tag)
      with m have "''Year'' @ tok0 \<in> set tags" by blast
      with f show "\<exists>pre0 tok0 post0. first_year title pre0 tok0 post0 \<and> ''Year'' @ tok0 \<in> set tags"
        by blast
    qed
    from r one first
    show "\<exists>tags. extract_tags_from_text title description = Inr tags \<and>
       length (filter is_year_tag tags) \<le> 1 \<and>
       (\<forall>pre tok post. year_occurs title pre tok post \<longrightarrow>
          (\<exists>pre0 tok0 post0. first_year title pre0 tok0 post0 \<and> ''Year'' @ tok0 \<in> set tags))"
      by (intro exI[of _ tags] conjI)
  qed
  have "extract_tags_from_text ''Disney Epcot Food Tour 2022'' ''Eating our way through Epcot'' =
      Inr [''Disney'', ''Eating'', ''Epcot'', ''Food'', ''ThemePark'', ''Tour'', ''Year2022'']"
    by code_simp
  then show "\<exists>tags. extract_tags_from_text ''Disney Epcot Food Tour 2022''
              ''Eating our way through Epcot'' = Inr tags \<and> ''Year2022'' \<in> set tags"
    by simp
qed

text \<open>
  A title with two years: the tag is that of the first.
\<close>

theorem year_tag_first_match_witness:
  "year_occurs ''2019 and 2020'' ''2019 and '' ''2020'' [] \<and>
   extract_tags_from_text ''2019 and 2020'' '''' = Inr [''Year2019''] \<and>
   length (filter is_year_tag [''Year2019'']) \<le> 1 \<and>
   (\<exists>pre0 post0. first_year ''2019 and 2020'' pre0 ''2019'' post0)"
proof -
  have o: "year_occurs ''2019 and 2020'' ''2019 and '' ''2020'' []"
    by (simp add: year_occurs_def word_delimited_def is_word_def is_digit_def code_point_def)
  have e: "extract_tags_from_text ''2019 and 2020'' '''' = Inr [''Year2019'']" by code_simp
  from year_tag_first_match
  have "\<forall>title description. \<exists>tags. extract_tags_from_text title description = Inr tags \<and>
       length (filter is_year_tag tags) \<le> 1 \<and>
       (\<forall>pre tok post. year_occurs title pre tok post \<longrightarrow>
          (\<exists>pre0 tok0 post0. first_year title pre0 tok0 post0 \<and> ''Year'' @ tok0 \<in> set tags))"
    by (rule conjunct1)
  from this[rule_format, of "''2019 and 2020''" "''''"]
  obtain tags where r: "extract_tags_from_text ''2019 and 2020'' '''' = Inr tags"
    and l: "length (filter is_year_tag tags) \<le> 1"
    and f: "\<forall>pre tok post. year_occurs ''2019 and 2020'' pre tok post \<longrightarrow>
          (\<exists>pre0 tok0 post0. first_year ''2019 and 2020'' pre0 tok0 post0 \<and>
             ''Year'' @ tok0 \<in> set tags)"
    by blast
  from r e have t: "tags = [''Year2019'']" by simp
  from f[rule_format, OF o] obtain pre0 tok0 post0
    where f0: "first_year ''2019 and 2020'' pre0 tok0 post0"
      and y: "''Year'' @ tok0 \<in> set tags" by blast
  from y t have "tok0 = ''2019''" by simp
  with f0 have "\<exists>pre0 post0. first_year ''2019 and 2020'' pre0 ''2019'' post0" by blast
  moreover from l t have "length (filter is_year_tag [''Year2019'']) \<le> 1" by simp
  ultimately show ?thesis using o e by (intro conjI)
qed

text \<open>
  Claim C6.  When the lowercase combined text contains \<^verbatim>\<open>daily woo\<close> (or
  \<^verbatim>\<open>the daily woo\<close>), the result contains \<^verbatim>\<open>DailyVlog\<close> and
  \<^verbatim>\<open>DailyWoo\<close>; when the title contains \<^verbatim>\<open>Day\<close>, a space and a digit, the
  result contains \<^verbatim>\<open>DailyVlog\<close>; and \<^verbatim>\<open>DailyVlog\<close>, when it is in the
  result, is there exactly once, as for the title \<^verbatim>\<open>Daily Woo Day 47\<close>, where both
  rules fire.
\<close>

theorem daily_tags:
  "(\<forall>title description. \<exists>tags. extract_tags_from_text title description = Inr tags \<and>
      (contains ''daily woo'' (lower (title @ '' '' @ description)) \<or>
       contains ''the daily woo'' (lower (title @ '' '' @ description)) \<longrightarrow>
         ''DailyVlog'' \<in> set tags \<and> ''DailyWoo'' \<in> set tags) \<and>
      (day_occurs title \<longrightarrow> ''DailyVlog'' \<in> set tags) \<and>
      (''DailyVlog'' \<in> set tags \<longrightarrow> count_list tags ''DailyVlog'' = 1)) \<and>
   extract_tags_from_text ''Daily Woo Day 47'' '''' = Inr [''DailyVlog'', ''DailyWoo'']"
proof
  show "\<forall>title description. \<exists>tags. extract_tags_from_text title description = Inr tags \<and>
      (contains ''daily woo'' (lower (title @ '' '' @ description)) \<or>
       contains ''the daily woo'' (lower (title @ '' '' @ description)) \<longrightarrow>
         ''DailyVlog'' \<in> set tags \<and> ''DailyWoo'' \<in> set tags) \<and>
      (day_occurs title \<longrightarrow> ''DailyVlog'' \<in> set tags) \<and>
      (''DailyVlog'' \<in> set tags \<longrightarrow> count_list tags ''DailyVlog'' = 1)"
  proof (intro allI)
    fix title description
    from extract_tags_char[of title description]
    obtain tags where r: "extract_tags_from_text title description = Inr tags"
      and d: "distinct tags"
      and m: "\<forall>x. x \<in> set tags \<longleftrightarrow> emitted keywords_list title description x"
      by blast
    have a: "contains ''daily woo'' (lower (title @ '' '' @ description)) \<or>
       contains ''the daily woo'' (lower (title @ '' '' @ description)) \<longrightarrow>
         ''DailyVlog'' \<in> set tags \<and> ''DailyWoo'' \<in> set tags"
    proof
      assume "contains ''daily woo'' (lower (title @ '' '' @ description)) \<or>
       contains ''the daily woo'' (lower (title @ '' '' @ description))"
      then have "pattern_tag (combined_text title description) ''DailyVlog''"
        and "pattern_tag (combined_text title description) ''DailyWoo''"
        unfolding pattern_tag_DailyVlog pattern_tag_DailyWoo combined_text_def by simp_all
      then have "emitted keywords_list title description ''DailyVlog''"
        and "emitted keywords_list title description ''DailyWoo''"
        by (simp_all only: emitted_pattern_tag)
      with m show "''DailyVlog'' \<in> set tags \<and> ''DailyWoo'' \<in> set tags" by blast
    qed
    have b: "day_occurs title \<longrightarrow> ''DailyVlog'' \<in> set tags"
    proof
      assume "day_occurs title"
      then have "emitted keywords_list title description ''DailyVlog''" by (rule emitted_day)
      with m show "''DailyVlog'' \<in> set tags" by blast
    qed
    have c: "''DailyVlog'' \<in> set tags \<longrightarrow> count_list tags ''DailyVlog'' = 1"
      using distinct_count_list[OF d] by blast
    from r a b c
    show "\<exists>tags. extract_tags_from_text title description = Inr tags \<and>
      (contains ''daily woo'' (lower (title @ '' '' @ description)) \<or>
       contains ''the daily woo'' (lower (title @ '' '' @ description)) \<longrightarrow>
         ''DailyVlog'' \<in> set tags \<and> ''DailyWoo'' \<in> set tags) \<and>
      (day_occurs title \<longrightarrow> ''DailyVlog'' \<in> set tags) \<and>
      (''DailyVlog'' \<in> set tags \<longrightarrow> count_list tags ''DailyVlog'' = 1)"
      by (intro exI[of _ tags] conjI)
  qed
  show "extract_tags_from_text ''Daily Woo Day 47'' '''' = Inr [''DailyVlog'', ''DailyWoo'']"
    by code_simp
qed

text \<open>
  Both rules fire on the title \<^verbatim>\<open>Daily Woo Day 47\<close>.
\<close>

theorem daily_tags_witness:
  "contains ''daily woo'' (lower (''Daily Woo Day 47'' @ '' '' @ '''')) \<and>
   day_occurs ''Daily Woo Day 47'' \<and>
   extract_tags_from_text ''Daily Woo Day 47'' '''' = Inr [''DailyVlog'', ''DailyWoo''] \<and>
   ''DailyVlog'' \<in> set [''DailyVlog'', ''DailyWoo''] \<and>
   ''DailyWoo'' \<in> set [''DailyVlog'', ''DailyWoo''] \<and>
   count_list [''DailyVlog'', ''DailyWoo''] ''DailyVlog'' = 1"
proof -
  have c: "contains ''daily woo'' (lower (''Daily Woo Day 47'' @ '' '' @ ''''))" by code_simp
  have "''Daily Woo Day 47'' = ''Daily Woo '' @ ''Day '' @ CHR ''4'' # ''7'' \<and> is_digit CHR ''4''"
    by (simp add: is_digit_def code_point_def)
  then have o: "day_occurs ''Daily Woo Day 47''" unfolding day_occurs_def
    by (rule_tac x = "''Daily Woo ''" in exI, rule_tac x = "CHR ''4''" in exI,
        rule_tac x = "''7''" in exI)
  from daily_tags
  have e: "extract_tags_from_text ''Daily Woo Day 47'' '''' = Inr [''DailyVlog'', ''DailyWoo'']"
    and g: "\<forall>title description. \<exists>tags. extract_tags_from_text title description = Inr tags \<and>
      (contains ''daily woo'' (lower (title @ '' '' @ description)) \<or>
       contains ''the daily woo'' (lower (title @ '' '' @ description)) \<longrightarrow>
         ''DailyVlog'' \<in> set tags \<and> ''DailyWoo'' \<in> set tags) \<and>
      (day_occurs title \<longrightarrow> ''DailyVlog'' \<in> set tags) \<and>
      (''DailyVlog'' \<in> set tags \<longrightarrow> count_list tags ''DailyVlog'' = 1)"
    by (rule conjunct2, rule conjunct1)
  from g[rule_format, of "''Daily Woo Day 47''" "''''"] c o
  obtain tags where r: "extract_tags_from_text ''Daily Woo Day 47'' '''' = Inr tags"
    and v: "''DailyVlog'' \<in> set tags" and w: "''DailyWoo'' \<in> set tags"
    and n: "count_list tags ''DailyVlog'' = 1" by blast
  from r e have t: "tags = [''DailyVlog'', ''DailyWoo'']" by simp
  from v w n have "''DailyVlog'' \<in> set [''DailyVlog'', ''DailyWoo'']"
    and "''DailyWoo'' \<in> set [''DailyVlog'', ''DailyWoo'']"
    and "count_list [''DailyVlog'', ''DailyWoo''] ''DailyVlog'' = 1"
    unfolding t by simp_all
  with c o e show ?thesis by (intro conjI)
qed

lemma sort_distinct_enumeration:
  "distinct xs \<Longrightarrow> sorted_list_of_set (set xs) = sort xs"
  by (simp add: sorted_list_of_set_sort_remdups distinct_remdups_id)

text \<open>
  Claim C8.  The program has two places where the order is not its own: the loop over the
  set \<^verbatim>\<open>keywords\<close> and \<^verbatim>\<open>list(tags)\<close>.  Whatever the order \<open>ks\<close> in which the
  keywords are iterated and whatever the order \<open>xs\<close> in which the set of tags is
  listed before sorting, the list returned is that of \<^const>\<open>extract_tags_from_text\<close>:
  two calls with the same title and description return the same list.
\<close>

theorem extract_deterministic:
  assumes "set ks = set keywords_list"
  shows "extract_tags_iter ks title description = extract_tags_from_text title description \<and>
    (\<forall>tags xs. collect_tags ks title description = Inr tags \<and> distinct xs \<and> set xs = tags \<longrightarrow>
       extract_tags_from_text title description = Inr (sort xs))"
proof
  have "emitted ks title description x = emitted keywords_list title description x" for x
    using assms by (rule emitted_set_cong)
  then have s: "{x. emitted ks title description x} = {x. emitted keywords_list title description x}"
    by simp
  show i: "extract_tags_iter ks title description = extract_tags_from_text title description"
    unfolding extract_tags_from_text_def extract_tags_iter_eq s ..
  show "\<forall>tags xs. collect_tags ks title description = Inr tags \<and> distinct xs \<and> set xs = tags \<longrightarrow>
       extract_tags_from_text title description = Inr (sort xs)"
  proof (intro allI impI)
    fix tags xs
    assume a: "collect_tags ks title description = Inr tags \<and> distinct xs \<and> set xs = tags"
    then have c: "collect_tags ks title description = Inr (set xs)" and d: "distinct xs"
      by simp_all
    from c have "extract_tags_iter ks title description = Inr (sorted_list_of_set (set xs))"
      by (simp add: extract_tags_iter_def)
    then have "extract_tags_iter ks title description = Inr (sort xs)"
      unfolding sort_distinct_enumeration[OF d] .
    then show "extract_tags_from_text title description = Inr (sort xs)"
      unfolding i .
  qed
qed

text \<open>
  The keywords iterated in reverse order, and the tags listed in descending order.
\<close>

theorem extract_deterministic_witness:
  "set (rev keywords_list) = set keywords_list \<and>
   collect_tags (rev keywords_list) ''Mall tour'' ''in FL'' = Inr (set [''Tour'', ''Mall'', ''Florida'']) \<and>
   distinct [''Tour'', ''Mall'', ''Florida''] \<and>
   extract_tags_iter (rev keywords_list) ''Mall tour'' ''in FL'' =
     extract_tags_from_text ''Mall tour'' ''in FL'' \<and>
   extract_tags_from_text ''Mall tour'' ''in FL'' = Inr (sort [''Tour'', ''Mall'', ''Florida''])"
proof -
  have k: "set (rev keywords_list) = set keywords_list" by simp
  have c: "collect_tags (rev keywords_list) ''Mall tour'' ''in FL'' =
      Inr (set [''Tour'', ''Mall'', ''Florida''])"
    by code_simp
  have d: "distinct [''Tour'', ''Mall'', ''Florida'']" by simp
  from extract_deterministic[OF k, of "''Mall tour''" "''in FL''"]
  have i: "extract_tags_iter (rev keywords_list) ''Mall tour'' ''in FL'' =
     extract_tags_from_text ''Mall tour'' ''in FL''"
    and a: "\<forall>tags xs. collect_tags (rev keywords_list) ''Mall tour'' ''in FL'' = Inr tags \<and>
        distinct xs \<and> set xs = tags \<longrightarrow>
       extract_tags_from_text ''Mall tour'' ''in FL'' = Inr (sort xs)"
    by (rule conjunct1, rule conjunct2)
  from a[rule_format, of "set [''Tour'', ''Mall'', ''Florida'']" "[''Tour'', ''Mall'', ''Florida'']"] c d
  have "extract_tags_from_text ''Mall tour'' ''in FL'' = Inr (sort [''Tour'', ''Mall'', ''Florida''])"
    by blast
  with k c d i show ?thesis by (intro conjI)
qed

text \<open>
  Claim C9.  Appending text to the description never removes a tag: every tag of the
  result for a title and a description is a tag of the result for the same title and the
  description extended by any text.
\<close>

theorem description_append_monotone:
  "\<exists>tags tags2. extract_tags_from_text title description = Inr tags \<and>
     extract_tags_from_text title (description @ extra) = Inr tags2 \<and> set tags \<subseteq> set tags2"
proof -
  from extract_tags_char[of title description]
  obtain tags where r: "extract_tags_from_text title description = Inr tags"
    and m: "\<forall>x. x \<in> set tags \<longleftrightarrow> emitted keywords_list title description x"
    by blast
  from extract_tags_char[of title "description @ extra"]
  obtain tags2 where r2: "extract_tags_from_text title (description @ extra) = Inr tags2"
    and m2: "\<forall>x. x \<in> set tags2 \<longleftrightarrow> emitted keywords_list title (description @ extra) x"
    by blast
  have "set tags \<subseteq> set tags2"
  proof
    fix x assume "x \<in> set tags"
    with m have "emitted keywords_list title description x" by blast
    then have "emitted keywords_list title (description @ extra) x" by (rule emitted_append)
    with m2 show "x \<in> set tags2" by blast
  qed
  with r r2 show ?thesis by (intro exI[of _ tags] exI[of _ tags2] conjI)
qed

text \<open>
  A description extended by \<^verbatim>\<open> FL\<close>: the tag \<^verbatim>\<open>Florida\<close> is added, and
  \<^verbatim>\<open>Travel\<close> stays.
\<close>

theorem description_append_monotone_witness:
  "extract_tags_from_text ''Trip'' ''to'' = Inr [''Travel''] \<and>
   extract_tags_from_text ''Trip'' (''to'' @ '' FL'') = Inr [''Florida'', ''Travel''] \<and>
   set [''Travel''] \<subseteq> set [''Florida'', ''Travel'']"
proof -
  have e: "extract_tags_from_text ''Trip'' ''to'' = Inr [''Travel'']" by code_simp
  have e2: "extract_tags_from_text ''Trip'' (''to'' @ '' FL'') = Inr [''Florida'', ''Travel'']"
    by code_simp
  from description_append_monotone[of "''Trip''" "''to''" "'' FL''"]
  obtain tags tags2 where "extract_tags_from_text ''Trip'' ''to'' = Inr tags"
    and "extract_tags_from_text ''Trip'' (''to'' @ '' FL'') = Inr tags2"
    and "set tags \<subseteq> set tags2" by blast
  with e e2 have "set [''Travel''] \<subseteq> set [''Florida'', ''Travel'']" by simp
  with e e2 show ?thesis by (intro conjI)
qed






end
